theory Spec2Isabelle
  imports Main "HOL-Library.Sublist"
begin

section \<open>Python strings, integers and slices\<close>

text \<open>
  A Python \<^verbatim>\<open>str\<close> is a sequence of Unicode code points, and \<^verbatim>\<open>len\<close> counts code
  points. It is modelled as the list of its code points, each a natural number.
  \<open>py\<close> writes an ASCII literal of the source as such a list.
\<close>

type_synonym pstr = "nat list"

definition py :: "string \<Rightarrow> pstr" where
  "py s = map of_char s"

abbreviation underscore :: nat where
  "underscore \<equiv> 95"

text \<open>\<^verbatim>\<open>len(s)\<close> is a Python integer.\<close>

definition py_len :: "'a list \<Rightarrow> int" where
  "py_len xs = int (length xs)"

text \<open>
  \<^verbatim>\<open>xs[:k]\<close>: a negative bound counts from the end of the sequence, and a bound
  that leaves the sequence on either side is clipped to it.
\<close>

definition slice_to :: "'a list \<Rightarrow> int \<Rightarrow> 'a list" where
  "slice_to xs k = (if 0 \<le> k then take (nat k) xs else take (nat (py_len xs + k)) xs)"

text \<open>
  \<^verbatim>\<open>str(n)\<close> of a non-negative integer: its decimal digits, most significant first.
  The counters of the program start at zero and are only incremented, and \<^verbatim>\<open>len\<close> of
  a set is never negative, so these integers are natural numbers.
\<close>

function str_nat :: "nat \<Rightarrow> pstr" where
  "str_nat n = (if n < 10 then [48 + n] else str_nat (n div 10) @ [48 + n mod 10])"
  by pat_completeness auto
termination
  by (relation "measure id") auto

declare str_nat.simps [simp del]

text \<open>\<^verbatim>\<open>s.startswith(p)\<close>.\<close>

definition startswith :: "pstr \<Rightarrow> pstr \<Rightarrow> bool" where
  "startswith s p = (take (length p) s = p)"

text \<open>
  \<^verbatim>\<open>s.rfind(c)\<close> for a single character: the highest index where it stands, or
  \<open>-1\<close>.
\<close>

definition py_rfind :: "pstr \<Rightarrow> nat \<Rightarrow> int" where
  "py_rfind s c =
     (if c \<in> set s then py_len s - 1 - py_len (takeWhile (\<lambda>x. x \<noteq> c) (rev s)) else - 1)"

subsection \<open>Character classes\<close>

text \<open>
  The whitespace of \<^verbatim>\<open>str.strip()\<close> and of the class \<^verbatim>\<open>\s\<close> in a pattern over
  \<^verbatim>\<open>str\<close>: the code points for which \<^verbatim>\<open>str.isspace()\<close> holds. Tab to carriage
  return, the four separators before the space, the space, NEL, the no-break space and
  the Unicode space separators.
\<close>

definition is_space :: "nat \<Rightarrow> bool" where
  "is_space c =
     ((9 \<le> c \<and> c \<le> 13) \<or> (28 \<le> c \<and> c \<le> 32) \<or> c = 133 \<or> c = 160 \<or> c = 5760
      \<or> (8192 \<le> c \<and> c \<le> 8202) \<or> c = 8232 \<or> c = 8233 \<or> c = 8239 \<or> c = 8287
      \<or> c = 12288)"

text \<open>The class \<^verbatim>\<open>[a-zA-Z0-9]\<close>.\<close>

definition ascii_alnum :: "nat \<Rightarrow> bool" where
  "ascii_alnum c = ((48 \<le> c \<and> c \<le> 57) \<or> (65 \<le> c \<and> c \<le> 90) \<or> (97 \<le> c \<and> c \<le> 122))"

text \<open>
  The class \<^verbatim>\<open>\w\<close> in a pattern over \<^verbatim>\<open>str\<close>: the alphanumeric code points and the
  underscore. Below 128 the alphanumeric code points are the ASCII letters and
  digits; beyond, they are given by the Unicode database of the Python runtime, which
  is not part of the repository and is the parameter \<open>alnum\<close> (consulted
  from 128 on only).
\<close>

definition uni_alnum :: "(nat \<Rightarrow> bool) \<Rightarrow> nat \<Rightarrow> bool" where
  "uni_alnum alnum c = (if c < 128 then ascii_alnum c else alnum c)"

definition is_word :: "(nat \<Rightarrow> bool) \<Rightarrow> nat \<Rightarrow> bool" where
  "is_word alnum c = (uni_alnum alnum c \<or> c = underscore)"

subsection \<open>Substitution and stripping\<close>

text \<open>
  \<^verbatim>\<open>re.sub(P+, r, s)\<close> for a character class \<open>P\<close>: from left to right, every maximal
  run of characters of the class is replaced by \<open>r\<close>.
\<close>

function sub_runs :: "(nat \<Rightarrow> bool) \<Rightarrow> pstr \<Rightarrow> pstr \<Rightarrow> pstr" where
  "sub_runs P r [] = []"
| "sub_runs P r (x # xs) =
     (if P x then r @ sub_runs P r (dropWhile P xs) else x # sub_runs P r xs)"
  by pat_completeness auto
termination
  by (relation "measure (\<lambda>(P, r, xs). length xs)")
     (auto simp add: length_dropWhile_le le_imp_less_Suc)

text \<open>\<^verbatim>\<open>s.rstrip(u)\<close> for a single character \<open>u\<close>, and \<^verbatim>\<open>s.strip()\<close>.\<close>

definition rstrip :: "nat \<Rightarrow> pstr \<Rightarrow> pstr" where
  "rstrip u xs = rev (dropWhile (\<lambda>c. c = u) (rev xs))"

definition py_strip :: "pstr \<Rightarrow> pstr" where
  "py_strip xs = rev (dropWhile is_space (rev (dropWhile is_space xs)))"

subsection \<open>Lower case\<close>

text \<open>
  \<^verbatim>\<open>s.lower()\<close> replaces every character by its lower-case form, which may be several
  characters long and, for one Greek letter, depends on the characters around it. An
  ASCII capital becomes the ASCII small letter and every other ASCII character stays.
  For the code points from 128 on the replacement comes from the Unicode database of
  the Python runtime: the parameter \<open>lower_tbl\<close>, given the whole string and the
  position.
\<close>

type_synonym case_table = "pstr \<Rightarrow> nat \<Rightarrow> pstr"

fun lower_from :: "case_table \<Rightarrow> pstr \<Rightarrow> nat \<Rightarrow> pstr \<Rightarrow> pstr" where
  "lower_from lower_tbl s i [] = []"
| "lower_from lower_tbl s i (c # cs) =
     (if 65 \<le> c \<and> c \<le> 90 then [c + 32] else if c < 128 then [c] else lower_tbl s i)
     @ lower_from lower_tbl s (Suc i) cs"

definition py_lower :: "case_table \<Rightarrow> pstr \<Rightarrow> pstr" where
  "py_lower lower_tbl s = lower_from lower_tbl s 0 s"

section \<open>Paths\<close>

text \<open>
  A \<^verbatim>\<open>pathlib.Path\<close> of a directory entry: the directory and the final component.
  \<^verbatim>\<open>Path.suffix\<close> and \<^verbatim>\<open>Path.stem\<close> split the final component at its last dot,
  unless that dot is its first or its last character.
\<close>

record Path =
  parent :: pstr
  name :: pstr

definition py_suffix :: "pstr \<Rightarrow> pstr" where
  "py_suffix filename =
     (let i = py_rfind filename 46
      in if 0 < i \<and> i < py_len filename - 1 then drop (nat i) filename else [])"

definition py_stem :: "pstr \<Rightarrow> pstr" where
  "py_stem filename =
     (let i = py_rfind filename 46
      in if 0 < i \<and> i < py_len filename - 1 then take (nat i) filename else filename)"

text \<open>
  \<^verbatim>\<open>directory / new_name\<close> for a name without a separator: the entry of that name in
  the directory.
\<close>

definition joinpath :: "pstr \<Rightarrow> pstr \<Rightarrow> Path" where
  "joinpath dir new_name = \<lparr>parent = dir, name = new_name\<rparr>"

section \<open>The renamer\<close>

record ImageFile =
  path :: Path
  original_name :: pstr
  extension :: pstr

record ImageRenamer =
  directory :: pstr
  skip_existing :: bool
  verbose :: bool

definition VALID_EXTENSIONS :: "pstr set" where
  "VALID_EXTENSIONS =
     {py ''.jpg'', py ''.jpeg'', py ''.png'', py ''.gif'', py ''.PNG'', py ''JPG''}"

definition MAX_FILENAME_LENGTH :: int where
  "MAX_FILENAME_LENGTH = 255"

text \<open>
  The constructor. An argument that the caller leaves out is \<open>None\<close> and takes the
  default of the signature: \<^verbatim>\<open>skip_existing: bool = True, verbose = False\<close>.
\<close>

definition ImageRenamer_init :: "pstr \<Rightarrow> bool option \<Rightarrow> bool option \<Rightarrow> ImageRenamer" where
  "ImageRenamer_init dir skip verb =
     \<lparr>directory = dir,
      skip_existing = (case skip of None \<Rightarrow> True | Some b \<Rightarrow> b),
      verbose = (case verb of None \<Rightarrow> False | Some b \<Rightarrow> b)\<rparr>"

subsection \<open>Discovery\<close>

text \<open>
  The file system is outside the program: \<open>is_file\<close> answers \<^verbatim>\<open>Path.is_file()\<close> and
  \<open>iterdir\<close> is the listing of \<^verbatim>\<open>self.directory\<close>, in the order the system yields it.
\<close>

definition is_valid_image_file ::
  "case_table \<Rightarrow> ImageRenamer \<Rightarrow> (Path \<Rightarrow> bool) \<Rightarrow> Path \<Rightarrow> bool" where
  "is_valid_image_file lower_tbl self is_file file_path =
     (if \<not> is_file file_path then False
      else if skip_existing self \<and> startswith (py_stem (name file_path)) (py ''_'') then False
      else py_lower lower_tbl (py_suffix (name file_path)) \<in> VALID_EXTENSIONS)"

definition get_image_files ::
  "case_table \<Rightarrow> ImageRenamer \<Rightarrow> (Path \<Rightarrow> bool) \<Rightarrow> Path list \<Rightarrow> ImageFile list" where
  "get_image_files lower_tbl self is_file iterdir =
     map (\<lambda>file_path.
            \<lparr>path = file_path,
             original_name = py_stem (name file_path),
             extension = py_lower lower_tbl (py_suffix (name file_path))\<rparr>)
         (filter (is_valid_image_file lower_tbl self is_file) iterdir)"

subsection \<open>Text extraction\<close>

text \<open>
  A raised instance of Python's \<^verbatim>\<open>Exception\<close>, with its message. The image library
  and the OCR engine are outside the repository: \<open>ocr\<close> is the outcome of
  \<^verbatim>\<open>Image.open(image_path)\<close> followed by \<^verbatim>\<open>pytesseract.image_to_string\<close>, either
  the exception one of them raises or the string the engine returns. Log lines are
  not part of the model.
\<close>

datatype exn = Exception string

text \<open>The \<^verbatim>\<open>try\<close> block of \<^verbatim>\<open>extract_text_from_image\<close>, and the function.\<close>

definition extract_text_try :: "(Path \<Rightarrow> exn + pstr) \<Rightarrow> Path \<Rightarrow> exn + pstr option" where
  "extract_text_try ocr image_path =
     (case ocr image_path of
        Inl e \<Rightarrow> Inl e
      | Inr text \<Rightarrow> Inr (if text \<noteq> [] then Some (py_strip text) else None))"

definition extract_text_from_image :: "(Path \<Rightarrow> exn + pstr) \<Rightarrow> Path \<Rightarrow> exn + pstr option" where
  "extract_text_from_image ocr image_path =
     (case extract_text_try ocr image_path of
        Inl e \<Rightarrow> Inr None
      | Inr r \<Rightarrow> Inr r)"

subsection \<open>Sanitization\<close>

definition clean_text_for_filename :: "(nat \<Rightarrow> bool) \<Rightarrow> pstr \<Rightarrow> int \<Rightarrow> pstr" where
  "clean_text_for_filename alnum text max_length =
     (let text = map (\<lambda>c. if \<not> is_word alnum c \<and> \<not> is_space c then underscore else c) text;
          text = map (\<lambda>c. if c = 10 then 32 else c) text;
          text = sub_runs is_space (py ''_'') text;
          text = sub_runs (\<lambda>c. c = underscore) (py ''_'') text;
          text = dropWhile (\<lambda>c. \<not> ascii_alnum c) text
      in rstrip underscore (slice_to text max_length))"

subsection \<open>Allocation\<close>

text \<open>
  The body of the loop of \<^verbatim>\<open>generate_unique_filename\<close> computes, from the
  incremented counter, the name
  \<^verbatim>\<open>f"_{truncated_base}_{counter}{extension}"\<close>.
\<close>

definition numbered_name :: "pstr \<Rightarrow> pstr \<Rightarrow> nat \<Rightarrow> pstr" where
  "numbered_name base_name ext counter =
     (let truncated_base =
            slice_to base_name
              (MAX_FILENAME_LENGTH - py_len (str_nat counter) - py_len ext - 2)
      in py ''_'' @ truncated_base @ py ''_'' @ str_nat counter @ ext)"

text \<open>
  The \<^verbatim>\<open>while new_name in existing_names\<close> loop, on its two variables. The loop has
  no bound of its own, so it is a partial function: \<open>None\<close> stands for a run that
  never leaves the loop.
\<close>

partial_function (option) unique_loop ::
  "pstr \<Rightarrow> pstr \<Rightarrow> pstr set \<Rightarrow> nat \<Rightarrow> pstr \<Rightarrow> pstr option" where
  "unique_loop base_name ext existing_names counter new_name =
     (if new_name \<in> existing_names
      then unique_loop base_name ext existing_names (counter + 1)
             (numbered_name base_name ext (counter + 1))
      else Some new_name)"

definition generate_unique_filename :: "pstr \<Rightarrow> pstr \<Rightarrow> pstr set \<Rightarrow> pstr option" where
  "generate_unique_filename base_name ext existing_names =
     unique_loop base_name ext existing_names 0 (py ''_'' @ base_name @ ext)"

subsection \<open>Processing one file\<close>

text \<open>
  What \<^verbatim>\<open>process_image\<close> changes: the shared set of names, and the files of the
  directory, recorded as the list of renames that took place, each with its source and
  its target. \<open>os_rename\<close> is the answer of the operating system to
  \<^verbatim>\<open>Path.rename\<close>: the exception it raises, or \<open>None\<close> when the file was renamed.
  The tasks of the thread pool are taken one at a time.
\<close>

record world =
  registry :: "pstr set"
  renamed :: "(Path \<times> Path) list"

text \<open>The base name, as the \<^verbatim>\<open>if not text\<close> statement chooses it.\<close>

definition base_name_for :: "(nat \<Rightarrow> bool) \<Rightarrow> pstr option \<Rightarrow> ImageFile \<Rightarrow> pstr set \<Rightarrow> pstr" where
  "base_name_for alnum text image_file existing_names =
     (if text = None \<or> text = Some []
      then py ''meme_'' @ str_nat (card existing_names)
      else clean_text_for_filename alnum (the text)
             (MAX_FILENAME_LENGTH - py_len (extension image_file) - 2))"

text \<open>
  The \<^verbatim>\<open>try\<close> block of \<^verbatim>\<open>process_image\<close>: \<open>Inl e\<close> is the exception \<open>e\<close> leaving
  the block, with the world as it is at that moment.
\<close>

definition process_image_try ::
  "(nat \<Rightarrow> bool) \<Rightarrow> (Path \<Rightarrow> exn + pstr) \<Rightarrow> (Path \<Rightarrow> Path \<Rightarrow> exn option)
     \<Rightarrow> ImageFile \<Rightarrow> world \<Rightarrow> ((exn + unit) \<times> world) option" where
  "process_image_try alnum ocr os_rename image_file w =
     (case extract_text_from_image ocr (path image_file) of
        Inl e \<Rightarrow> Some (Inl e, w)
      | Inr text \<Rightarrow>
          (let base_name = base_name_for alnum text image_file (registry w)
           in case generate_unique_filename base_name (extension image_file) (registry w) of
                None \<Rightarrow> None
              | Some new_name \<Rightarrow>
                  (let new_path = joinpath (parent (path image_file)) new_name
                   in case os_rename (path image_file) new_path of
                        Some e \<Rightarrow> Some (Inl e, w)
                      | None \<Rightarrow>
                          Some (Inr (),
                            w\<lparr>registry := insert new_name (registry w),
                              renamed := renamed w @ [(path image_file, new_path)]\<rparr>))))"

text \<open>\<^verbatim>\<open>except Exception\<close>: the exception is logged and the function returns.\<close>

definition process_image ::
  "(nat \<Rightarrow> bool) \<Rightarrow> (Path \<Rightarrow> exn + pstr) \<Rightarrow> (Path \<Rightarrow> Path \<Rightarrow> exn option)
     \<Rightarrow> ImageFile \<Rightarrow> world \<Rightarrow> ((exn + unit) \<times> world) option" where
  "process_image alnum ocr os_rename image_file w =
     (case process_image_try alnum ocr os_rename image_file w of
        None \<Rightarrow> None
      | Some (Inl e, w') \<Rightarrow> Some (Inr (), w')
      | Some (Inr u, w') \<Rightarrow> Some (Inr u, w'))"

subsection \<open>The command line\<close>

text \<open>
  The parser of \<^verbatim>\<open>argparse\<close> is outside the repository, and how it recognises an
  option in the words of a command line is its own affair. A run of
  \<^verbatim>\<open>parse_args\<close> that returns is described by what the parser found: the directory,
  and for each of the two options whether it was given.
\<close>

record command_line =
  given_directory :: pstr
  given_process_all :: bool
  given_verbose :: bool

text \<open>
  An option declared with \<^verbatim>\<open>action="store_true"\<close> has the value \<^verbatim>\<open>False\<close> unless
  it was given, and \<^verbatim>\<open>True\<close> when it was. \<^verbatim>\<open>main\<close> declares \<^verbatim>\<open>--process-all\<close>
  so with \<^verbatim>\<open>dest="skip_existing"\<close> and \<^verbatim>\<open>--verbose\<close> with \<^verbatim>\<open>dest="verbose"\<close>:
  these are the attributes \<^verbatim>\<open>args.skip_existing\<close> and \<^verbatim>\<open>args.verbose\<close>.
\<close>

definition store_true :: "bool \<Rightarrow> bool" where
  "store_true given = (if given then True else False)"

definition args_skip_existing :: "command_line \<Rightarrow> bool" where
  "args_skip_existing cl = store_true (given_process_all cl)"

definition args_verbose :: "command_line \<Rightarrow> bool" where
  "args_verbose cl = store_true (given_verbose cl)"

text \<open>
  \<^verbatim>\<open>ImageRenamer(args.directory, skip_existing=args.skip_existing, verbose=args.verbose)\<close>.
\<close>

definition main_renamer :: "command_line \<Rightarrow> ImageRenamer" where
  "main_renamer cl =
     ImageRenamer_init (given_directory cl) (Some (args_skip_existing cl)) (Some (args_verbose cl))"

text \<open>
  \<^verbatim>\<open>main\<close> then calls \<^verbatim>\<open>process_directory\<close>, whose first step is the discovery:
  the files it finds, for a command line.
\<close>

definition main_discovers ::
  "case_table \<Rightarrow> (Path \<Rightarrow> bool) \<Rightarrow> Path list \<Rightarrow> command_line \<Rightarrow> ImageFile list" where
  "main_discovers lower_tbl is_file iterdir cl =
     get_image_files lower_tbl (main_renamer cl) is_file iterdir"

section \<open>Auxiliary notions of the proofs\<close>

text \<open>
  The one fact about the lower-case table of the Unicode database that the proofs rest
  on: the lower-case form of a character from 128 on holds no ASCII capital.
\<close>

definition no_ascii_capital :: "case_table \<Rightarrow> bool" where
  "no_ascii_capital lower_tbl =
     (\<forall>s i. i < length s \<and> 128 \<le> s ! i \<longrightarrow> (\<forall>c \<in> set (lower_tbl s i). \<not> (65 \<le> c \<and> c \<le> 90)))"


text \<open>The name the allocator's loop holds after \<open>k\<close> iterations.\<close>

definition name_at :: "pstr \<Rightarrow> pstr \<Rightarrow> nat \<Rightarrow> pstr" where
  "name_at base_name ext k =
     (if k = 0 then py ''_'' @ base_name @ ext
      else py ''_''
           @ slice_to base_name (MAX_FILENAME_LENGTH - py_len (str_nat k) - py_len ext - 2)
           @ py ''_'' @ str_nat k @ ext)"

text \<open>The number a decimal numeral stands for.\<close>

definition digits_val :: "pstr \<Rightarrow> nat" where
  "digits_val ds = foldl (\<lambda>a c. 10 * a + (c - 48)) 0 ds"

text \<open>The text after the four substitutions and the removal of the leading characters.\<close>

definition normalised :: "(nat \<Rightarrow> bool) \<Rightarrow> pstr \<Rightarrow> pstr" where
  "normalised alnum text =
     dropWhile (\<lambda>c. \<not> ascii_alnum c)
       (sub_runs (\<lambda>c. c = underscore) [underscore]
         (sub_runs is_space [underscore]
           (map (\<lambda>c. if c = 10 then 32 else c)
             (map (\<lambda>c. if \<not> is_word alnum c \<and> \<not> is_space c then underscore else c) text))))"


section \<open>The names of the loop\<close>

lemma name_at_numbered:
  "name_at b e k = (if k = 0 then py ''_'' @ b @ e else numbered_name b e k)"
  by (simp add: name_at_def numbered_name_def)

section \<open>Decimal numerals are injective\<close>

lemma str_nat_digits: "c \<in> set (str_nat n) \<Longrightarrow> 48 \<le> c \<and> c \<le> 57"
proof (induction n rule: str_nat.induct)
  case (1 n)
  show ?case
  proof (cases "n < 10")
    case True
    with "1.prems" show ?thesis by (simp add: str_nat.simps [of n])
  next
    case False
    with "1.prems" have "c \<in> set (str_nat (n div 10)) \<or> c = 48 + n mod 10"
      by (auto simp add: str_nat.simps [of n])
    then show ?thesis
    proof
      assume "c \<in> set (str_nat (n div 10))"
      with False "1.IH" show ?thesis by simp
    next
      assume "c = 48 + n mod 10"
      moreover have "n mod 10 < 10" by simp
      ultimately show ?thesis by linarith
    qed
  qed
qed

lemma underscore_notin_str_nat: "underscore \<notin> set (str_nat n)"
  using str_nat_digits [of underscore n] by auto

lemma digits_val_str_nat: "digits_val (str_nat n) = n"
proof (induction n rule: str_nat.induct)
  case (1 n)
  show ?case
  proof (cases "n < 10")
    case True
    then show ?thesis by (simp add: str_nat.simps [of n] digits_val_def)
  next
    case False
    with "1.IH" have "digits_val (str_nat (n div 10)) = n div 10" by simp
    with False show ?thesis
      by (simp add: str_nat.simps [of n] digits_val_def)
  qed
qed

lemma str_nat_inj: "str_nat m = str_nat n \<Longrightarrow> m = n"
  by (metis digits_val_str_nat)

section \<open>Numbered names are pairwise distinct\<close>

lemma last_field_eq:
  assumes "u \<notin> set d1" and "u \<notin> set d2" and "a @ u # d1 = b @ u # d2"
  shows "d1 = d2"
proof -
  have "takeWhile (\<lambda>x. x \<noteq> u) (rev (a @ u # d1)) = rev d1"
    using assms(1) by (auto simp add: takeWhile_tail)
  moreover have "takeWhile (\<lambda>x. x \<noteq> u) (rev (b @ u # d2)) = rev d2"
    using assms(2) by (auto simp add: takeWhile_tail)
  ultimately have "rev d1 = rev d2" using assms(3) by simp
  then show ?thesis by simp
qed

lemma numbered_name_inj:
  assumes "numbered_name b e m = numbered_name b e n"
  shows "m = n"
proof -
  obtain t1 t2 where
    eq: "(py ''_'' @ t1) @ underscore # str_nat m = (py ''_'' @ t2) @ underscore # str_nat n"
    using assms by (simp add: numbered_name_def Let_def py_def)
  have "str_nat m = str_nat n"
    by (rule last_field_eq [OF underscore_notin_str_nat underscore_notin_str_nat eq])
  then show ?thesis by (rule str_nat_inj)
qed

lemma inj_numbered_name: "inj_on (numbered_name b e) A"
  by (rule inj_onI) (rule numbered_name_inj)

section \<open>The loop leaves a finite registry\<close>

lemma free_numbered_name:
  assumes "finite S"
  shows "\<exists>k. 1 \<le> k \<and> k \<le> card S + 1 \<and> numbered_name b e k \<notin> S"
proof (rule ccontr)
  assume "\<not> ?thesis"
  then have sub: "numbered_name b e ` {1..card S + 1} \<subseteq> S" by auto
  have "card (numbered_name b e ` {1..card S + 1}) = card {1..card S + 1}"
    by (rule card_image) (rule inj_numbered_name)
  moreover have "card (numbered_name b e ` {1..card S + 1}) \<le> card S"
    using sub assms by (rule card_mono [rotated])
  ultimately show False by simp
qed

lemma unique_loop_reaches:
  assumes "numbered_name b e k \<notin> S" and "c < k"
    and "\<forall>j. c < j \<and> j < k \<longrightarrow> numbered_name b e j \<in> S" and "nm \<in> S"
  shows "unique_loop b e S c nm = Some (numbered_name b e k)"
  using assms
proof (induction "k - c" arbitrary: c nm)
  case 0
  then show ?case by simp
next
  case (Suc d)
  have step: "unique_loop b e S c nm = unique_loop b e S (c + 1) (numbered_name b e (c + 1))"
    using Suc.prems(4) by (subst unique_loop.simps) simp
  show ?case
  proof (cases "c + 1 = k")
    case True
    with Suc.prems(1) show ?thesis
      unfolding step by (subst unique_loop.simps) auto
  next
    case False
    with Suc.prems(2) have lt: "c + 1 < k" by simp
    have d: "d = k - (c + 1)" using Suc.hyps(2) by simp
    have mem: "numbered_name b e (c + 1) \<in> S" using Suc.prems(3) lt by simp
    have rest: "\<forall>j. c + 1 < j \<and> j < k \<longrightarrow> numbered_name b e j \<in> S"
      using Suc.prems(3) by simp
    show ?thesis
      unfolding step by (rule Suc.hyps(1) [OF d Suc.prems(1) lt rest mem])
  qed
qed

lemma generate_unique_filename_least:
  assumes "finite S"
  shows "\<exists>k. k \<le> card S + 1 \<and> generate_unique_filename b e S = Some (name_at b e k)
           \<and> name_at b e k \<notin> S \<and> (\<forall>j<k. name_at b e j \<in> S)"
proof (cases "py ''_'' @ b @ e \<in> S")
  case False
  then have r: "generate_unique_filename b e S = Some (name_at b e 0)"
    unfolding generate_unique_filename_def name_at_numbered
    by (subst unique_loop.simps) simp
  have f: "name_at b e 0 \<notin> S" using False by (simp add: name_at_numbered)
  show ?thesis
    by (rule exI [of _ 0]) (simp add: r f)
next
  case True
  define k where "k = (LEAST k. 1 \<le> k \<and> numbered_name b e k \<notin> S)"
  obtain k0 where k0: "1 \<le> k0" "k0 \<le> card S + 1" "numbered_name b e k0 \<notin> S"
    using free_numbered_name [OF assms, of b e] by blast
  have k: "1 \<le> k \<and> numbered_name b e k \<notin> S"
    unfolding k_def by (rule LeastI [of _ k0]) (use k0 in simp)
  have kle: "k \<le> k0"
    unfolding k_def by (rule Least_le) (use k0 in simp)
  have below: "\<forall>j. 0 < j \<and> j < k \<longrightarrow> numbered_name b e j \<in> S"
  proof (intro allI impI)
    fix j assume j: "0 < j \<and> j < k"
    then have "\<not> (1 \<le> j \<and> numbered_name b e j \<notin> S)"
      unfolding k_def using not_less_Least by blast
    with j show "numbered_name b e j \<in> S" by simp
  qed
  have "unique_loop b e S 0 (py ''_'' @ b @ e) = Some (numbered_name b e k)"
    by (rule unique_loop_reaches [OF _ _ below True]) (use k in auto)
  then have r: "generate_unique_filename b e S = Some (name_at b e k)"
    using k by (simp add: generate_unique_filename_def name_at_numbered)
  have f: "name_at b e k \<notin> S" using k by (simp add: name_at_numbered)
  have bound: "k \<le> card S + 1" using kle k0 by simp
  have earlier: "\<forall>j<k. name_at b e j \<in> S"
  proof (intro allI impI)
    fix j assume "j < k"
    show "name_at b e j \<in> S"
    proof (cases "j = 0")
      case True
      with \<open>py ''_'' @ b @ e \<in> S\<close> show ?thesis by (simp add: name_at_numbered)
    next
      case False
      with below \<open>j < k\<close> show ?thesis by (simp add: name_at_numbered)
    qed
  qed
  show ?thesis
    by (rule exI [of _ k]) (intro conjI bound r f earlier)
qed

lemma generate_unique_filename_result:
  assumes "finite S"
  shows "\<exists>k. k \<le> card S + 1 \<and> generate_unique_filename b e S = Some (name_at b e k)
           \<and> name_at b e k \<notin> S"
proof -
  obtain k where "k \<le> card S + 1" "generate_unique_filename b e S = Some (name_at b e k)"
      "name_at b e k \<notin> S"
    using generate_unique_filename_least [OF assms, of b e] by blast
  then show ?thesis by (intro exI conjI)
qed

section \<open>Facts about the building blocks\<close>

lemma sub_runs_set: "set (sub_runs P r xs) \<subseteq> {x \<in> set xs. \<not> P x} \<union> set r"
proof (induction P r xs rule: sub_runs.induct)
  case (1 P r)
  show ?case by simp
next
  case (2 P r x xs)
  show ?case
  proof (cases "P x")
    case True
    with "2.IH"(1) have "set (sub_runs P r (dropWhile P xs)) \<subseteq> {x \<in> set (dropWhile P xs). \<not> P x} \<union> set r"
      by simp
    moreover have "set (dropWhile P xs) \<subseteq> set xs" by (auto dest: set_dropWhileD)
    ultimately show ?thesis using True by auto
  next
    case False
    with "2.IH"(2) show ?thesis by auto
  qed
qed

lemma sub_runs_id: "(\<And>x. x \<in> set xs \<Longrightarrow> \<not> P x) \<Longrightarrow> sub_runs P r xs = xs"
  by (induction xs) auto

lemma sub_runs_hd:
  "xs \<noteq> [] \<Longrightarrow> \<not> P (hd xs) \<Longrightarrow> sub_runs P r xs \<noteq> [] \<and> hd (sub_runs P r xs) = hd xs"
  by (cases xs) auto

lemma pair_Cons:
  "sublist [u, u] (x # ys) \<longleftrightarrow> (x = u \<and> ys \<noteq> [] \<and> hd ys = u) \<or> sublist [u, u] ys"
  by (cases ys) (auto simp add: sublist_Cons_right)

lemma collapse_no_pair: "\<not> sublist [u, u] (sub_runs (\<lambda>c. c = u) [u] xs)"
proof (induction "\<lambda>c::nat. c = u" "[u]" xs rule: sub_runs.induct)
  case 1
  show ?case by simp
next
  case (2 x xs)
  show ?case
  proof (cases "x = u")
    case True
    let ?d = "dropWhile (\<lambda>c. c = u) xs"
    have ih: "\<not> sublist [u, u] (sub_runs (\<lambda>c. c = u) [u] ?d)" using "2.hyps"(1) True by simp
    have "sub_runs (\<lambda>c. c = u) [u] ?d = [] \<or> hd (sub_runs (\<lambda>c. c = u) [u] ?d) \<noteq> u"
    proof (cases "?d = []")
      case True
      then have "sub_runs (\<lambda>c. c = u) [u] ?d = []" by (simp del: dropWhile_eq_Nil_conv)
      then show ?thesis by (rule disjI1)
    next
      case False
      then have "hd ?d \<noteq> u" using hd_dropWhile [of "\<lambda>c. c = u" xs] by simp
      with False show ?thesis using sub_runs_hd [of ?d "\<lambda>c. c = u" "[u]"] by simp
    qed
    with ih \<open>x = u\<close> show ?thesis by (auto simp add: pair_Cons)
  next
    case False
    with "2.hyps"(2) show ?thesis by (simp add: pair_Cons)
  qed
qed

lemma collapse_id: "\<not> sublist [u, u] xs \<Longrightarrow> sub_runs (\<lambda>c. c = u) [u] xs = xs"
proof (induction xs)
  case Nil
  show ?case by simp
next
  case (Cons x xs)
  from Cons.prems have np: "\<not> sublist [u, u] xs" and hd: "x = u \<Longrightarrow> xs = [] \<or> hd xs \<noteq> u"
    by (auto simp add: pair_Cons)
  show ?case
  proof (cases "x = u")
    case True
    with hd have "dropWhile (\<lambda>c. c = u) xs = xs" by (auto simp add: dropWhile_eq_self_iff)
    with True Cons.IH [OF np] show ?thesis by simp
  next
    case False
    with Cons.IH [OF np] show ?thesis by simp
  qed
qed

lemma rstrip_prefix: "prefix (rstrip u xs) xs"
proof -
  have "suffix (dropWhile (\<lambda>c. c = u) (rev xs)) (rev xs)" by (rule suffix_dropWhile)
  then show ?thesis by (simp add: rstrip_def suffix_to_prefix)
qed

lemma rstrip_last: "rstrip u xs \<noteq> [] \<Longrightarrow> last (rstrip u xs) \<noteq> u"
  using hd_dropWhile [of "\<lambda>c. c = u" "rev xs"] by (simp add: rstrip_def last_rev)

lemma rstrip_id: "xs = [] \<or> last xs \<noteq> u \<Longrightarrow> rstrip u xs = xs"
  by (cases xs rule: rev_cases) (auto simp add: rstrip_def)

lemma slice_to_prefix: "0 \<le> k \<Longrightarrow> prefix (slice_to xs k) xs"
  by (simp add: slice_to_def take_is_prefix)

lemma slice_to_length: "0 \<le> k \<Longrightarrow> py_len (slice_to xs k) \<le> k"
  by (simp add: slice_to_def py_len_def)

lemma slice_to_id: "py_len xs \<le> k \<Longrightarrow> slice_to xs k = xs"
  by (simp add: slice_to_def py_len_def)

lemma prefix_hd: "prefix xs ys \<Longrightarrow> xs \<noteq> [] \<Longrightarrow> hd xs = hd ys"
  by (auto simp add: prefix_def)


lemma is_space_underscore: "\<not> is_space underscore"
  by (simp add: is_space_def)

lemma is_word_underscore: "is_word alnum underscore"
  by (simp add: is_word_def)

lemma clean_text_for_filename_normalised:
  "clean_text_for_filename alnum text k = rstrip underscore (slice_to (normalised alnum text) k)"
  by (simp add: clean_text_for_filename_def normalised_def py_def)

lemma normalised_chars:
  assumes "c \<in> set (normalised alnum text)"
  shows "is_word alnum c \<and> \<not> is_space c"
proof -
  define t1 where "t1 = map (\<lambda>c. if \<not> is_word alnum c \<and> \<not> is_space c then underscore else c) text"
  define t2 where "t2 = map (\<lambda>c. if c = 10 then 32 else c) t1"
  define t3 where "t3 = sub_runs is_space [underscore] t2"
  define t4 where "t4 = sub_runs (\<lambda>c. c = underscore) [underscore] t3"
  have t1: "is_word alnum x \<or> is_space x" if "x \<in> set t1" for x
    using that unfolding t1_def by (auto simp add: is_word_underscore)
  have t2: "is_word alnum x \<or> is_space x" if "x \<in> set t2" for x
  proof -
    from that obtain y where y: "y \<in> set t1" and x: "x = (if y = 10 then 32 else y)"
      unfolding t2_def set_map by blast
    show ?thesis
    proof (cases "y = 10")
      case True
      with x show ?thesis by (simp add: is_space_def)
    next
      case False
      with x t1 [OF y] show ?thesis by simp
    qed
  qed
  have t3: "is_word alnum x \<and> \<not> is_space x" if "x \<in> set t3" for x
  proof -
    from that sub_runs_set [of is_space "[underscore]" t2]
    have "(x \<in> set t2 \<and> \<not> is_space x) \<or> x = underscore" unfolding t3_def by auto
    with t2 [of x] show ?thesis by (auto simp add: is_space_underscore is_word_underscore)
  qed
  have t4: "is_word alnum x \<and> \<not> is_space x" if "x \<in> set t4" for x
  proof -
    from that sub_runs_set [of "\<lambda>c. c = underscore" "[underscore]" t3]
    have "x \<in> set t3 \<or> x = underscore" unfolding t4_def by auto
    with t3 [of x] show ?thesis by (auto simp add: is_space_underscore is_word_underscore)
  qed
  from assms have "c \<in> set t4"
    unfolding normalised_def t4_def t3_def t2_def t1_def by (rule set_dropWhileD)
  then show ?thesis by (rule t4)
qed

lemma normalised_no_pair: "\<not> sublist [underscore, underscore] (normalised alnum text)"
proof
  assume "sublist [underscore, underscore] (normalised alnum text)"
  moreover have "sublist (normalised alnum text)
      (sub_runs (\<lambda>c. c = underscore) [underscore]
         (sub_runs is_space [underscore]
           (map (\<lambda>c. if c = 10 then 32 else c)
             (map (\<lambda>c. if \<not> is_word alnum c \<and> \<not> is_space c then underscore else c) text))))"
    unfolding normalised_def by (rule sublist_dropWhile)
  ultimately have "sublist [underscore, underscore]
      (sub_runs (\<lambda>c. c = underscore) [underscore]
         (sub_runs is_space [underscore]
           (map (\<lambda>c. if c = 10 then 32 else c)
             (map (\<lambda>c. if \<not> is_word alnum c \<and> \<not> is_space c then underscore else c) text))))"
    by (rule sublist_order.order.trans)
  then show False using collapse_no_pair by blast
qed

lemma normalised_hd: "normalised alnum text \<noteq> [] \<Longrightarrow> ascii_alnum (hd (normalised alnum text))"
  unfolding normalised_def using hd_dropWhile [of "\<lambda>c. \<not> ascii_alnum c"] by blast

lemma clean_prefix_normalised:
  "0 \<le> k \<Longrightarrow> prefix (clean_text_for_filename alnum text k) (normalised alnum text)"
  unfolding clean_text_for_filename_normalised
  using rstrip_prefix slice_to_prefix prefix_order.trans by blast

text \<open>A text in final form is left as it is.\<close>

lemma clean_text_for_filename_fixed:
  assumes chars: "\<And>c. c \<in> set xs \<Longrightarrow> is_word alnum c \<and> \<not> is_space c"
    and pair: "\<not> sublist [underscore, underscore] xs"
    and first: "xs = [] \<or> ascii_alnum (hd xs)"
    and len: "py_len xs \<le> k"
    and last: "xs = [] \<or> last xs \<noteq> underscore"
  shows "clean_text_for_filename alnum xs k = xs"
proof -
  have m1: "map (\<lambda>c. if \<not> is_word alnum c \<and> \<not> is_space c then underscore else c) xs = xs"
    by (rule map_idI) (use chars in auto)
  have "\<not> is_space c \<Longrightarrow> c \<noteq> 10" for c by (auto simp add: is_space_def)
  then have m2: "map (\<lambda>c. if c = 10 then 32 else c) xs = xs"
    by (intro map_idI) (use chars in auto)
  have s1: "sub_runs is_space [underscore] xs = xs"
    by (rule sub_runs_id) (use chars in auto)
  have s2: "sub_runs (\<lambda>c. c = underscore) [underscore] xs = xs"
    by (rule collapse_id [OF pair])
  have d: "dropWhile (\<lambda>c. \<not> ascii_alnum c) xs = xs"
    using first by (auto simp add: dropWhile_eq_self_iff)
  have "normalised alnum xs = xs"
    by (simp add: normalised_def m1 m2 s1 s2 d)
  then show ?thesis
    by (simp add: clean_text_for_filename_normalised slice_to_id [OF len] rstrip_id [OF last])
qed

section \<open>Facts about extraction and processing\<close>

lemma py_strip_trimmed:
  "\<exists>a b. t = a @ py_strip t @ b \<and> list_all is_space a \<and> list_all is_space b
      \<and> (py_strip t = [] \<or> (\<not> is_space (hd (py_strip t)) \<and> \<not> is_space (last (py_strip t))))"
proof -
  define d where "d = dropWhile is_space t"
  define a where "a = takeWhile is_space t"
  define b where "b = rev (takeWhile is_space (rev d))"
  have r: "py_strip t = rev (dropWhile is_space (rev d))" by (simp add: py_strip_def d_def)
  have "rev (takeWhile is_space (rev d) @ dropWhile is_space (rev d)) = d"
    by (simp only: takeWhile_dropWhile_id rev_rev_ident)
  then have "rev (dropWhile is_space (rev d)) @ rev (takeWhile is_space (rev d)) = d"
    by (simp only: rev_append)
  then have d: "d = py_strip t @ b" by (simp only: r b_def)
  have t: "t = a @ py_strip t @ b" unfolding d [symmetric] a_def d_def by simp
  have sa: "list_all is_space a" unfolding a_def list_all_iff by (auto dest: set_takeWhileD)
  have sb: "list_all is_space b" unfolding b_def list_all_iff by (auto dest: set_takeWhileD)
  have ends: "\<not> is_space (hd (py_strip t)) \<and> \<not> is_space (last (py_strip t))"
    if ne: "py_strip t \<noteq> []"
  proof
    from ne d have "d \<noteq> []" by auto
    then have "\<not> is_space (hd d)" unfolding d_def by (rule hd_dropWhile)
    moreover have "hd d = hd (py_strip t)" using d ne by (metis hd_append2)
    ultimately show "\<not> is_space (hd (py_strip t))" by simp
    from ne have "dropWhile is_space (rev d) \<noteq> []" by (simp add: r)
    then have "\<not> is_space (hd (dropWhile is_space (rev d)))" by (rule hd_dropWhile)
    then show "\<not> is_space (last (py_strip t))"
      using ne by (simp add: r last_rev)
  qed
  from t sa sb ends show ?thesis by blast
qed

lemma py_strip_blank: "list_all is_space t \<Longrightarrow> py_strip t = []"
proof -
  assume "list_all is_space t"
  then have "dropWhile is_space t = []" by (simp add: list_all_iff)
  then show ?thesis by (simp only: py_strip_def rev.simps dropWhile.simps)
qed

lemma process_image_never_Inl: "process_image alnum ocr os_rename image_file w \<noteq> Some (Inl e, w')"
  by (auto simp add: process_image_def split: option.splits sum.splits prod.splits)

lemma extract_text_from_image_Inr: "\<exists>text. extract_text_from_image ocr p = Inr text"
  by (simp add: extract_text_from_image_def split: sum.split)

section \<open>Facts about discovery and the new name\<close>

lemma lower_from_no_capital:
  assumes "no_ascii_capital lower_tbl" and "cs = drop i s"
    and "c \<in> set (lower_from lower_tbl s i cs)"
  shows "\<not> (65 \<le> c \<and> c \<le> 90)"
  using assms(2,3)
proof (induction cs arbitrary: i)
  case Nil
  then show ?case by simp
next
  case (Cons x xs)
  have d: "drop i s = x # xs" using Cons.prems(1) by simp
  then have x: "s ! i = x" by (rule nth_via_drop)
  have i: "i < length s" using d by (cases "i < length s") auto
  have xs: "xs = drop (Suc i) s" using d Cons_nth_drop_Suc [OF i] by simp
  from Cons.prems(2)
  have "c \<in> set (if 65 \<le> x \<and> x \<le> 90 then [x + 32] else if x < 128 then [x] else lower_tbl s i)
      \<or> c \<in> set (lower_from lower_tbl s (Suc i) xs)"
    by simp
  then show ?case
  proof
    assume "c \<in> set (if 65 \<le> x \<and> x \<le> 90 then [x + 32] else if x < 128 then [x] else lower_tbl s i)"
    moreover have "\<not> (65 \<le> c' \<and> c' \<le> 90)"
      if "128 \<le> x" and "c' \<in> set (lower_tbl s i)" for c'
      using assms(1) x i that unfolding no_ascii_capital_def by blast
    ultimately show ?thesis
      by (cases "65 \<le> x \<and> x \<le> 90"; cases "x < 128") (auto simp add: not_less)
  next
    assume "c \<in> set (lower_from lower_tbl s (Suc i) xs)"
    with xs show ?thesis by (rule Cons.IH)
  qed
qed

lemma py_lower_valid_four:
  assumes "no_ascii_capital lower_tbl"
  shows "py_lower lower_tbl s \<in> VALID_EXTENSIONS \<longleftrightarrow>
         py_lower lower_tbl s \<in> {py ''.jpg'', py ''.jpeg'', py ''.png'', py ''.gif''}"
proof -
  have cap: "\<not> (65 \<le> c \<and> c \<le> 90)" if "c \<in> set (py_lower lower_tbl s)" for c
    using lower_from_no_capital [OF assms, of s 0 s c] that unfolding py_lower_def by simp
  have "py_lower lower_tbl s \<noteq> py ''.PNG''"
  proof
    assume "py_lower lower_tbl s = py ''.PNG''"
    then have "80 \<in> set (py_lower lower_tbl s)" by (simp add: py_def)
    with cap [of 80] show False by simp
  qed
  moreover have "py_lower lower_tbl s \<noteq> py ''JPG''"
  proof
    assume "py_lower lower_tbl s = py ''JPG''"
    then have "74 \<in> set (py_lower lower_tbl s)" by (simp add: py_def)
    with cap [of 74] show False by simp
  qed
  ultimately show ?thesis by (auto simp add: VALID_EXTENSIONS_def)
qed

lemma startswith_stem: "startswith (py_stem n) (py ''_'') = startswith n (py ''_'')"
proof (cases "0 < py_rfind n 46 \<and> py_rfind n 46 < py_len n - 1")
  case True
  then have "Suc 0 \<le> nat (py_rfind n 46)" by linarith
  then have "take 1 (take (nat (py_rfind n 46)) n) = take 1 n"
    by (simp add: min_def)
  with True show ?thesis by (simp add: py_stem_def startswith_def py_def)
next
  case False
  then show ?thesis by (auto simp add: py_stem_def)
qed

lemma is_valid_image_file_eq:
  assumes "no_ascii_capital lower_tbl"
  shows "is_valid_image_file lower_tbl self is_file file_path \<longleftrightarrow>
      is_file file_path
    \<and> py_lower lower_tbl (py_suffix (name file_path))
        \<in> {py ''.jpg'', py ''.jpeg'', py ''.png'', py ''.gif''}
    \<and> \<not> (skip_existing self \<and> startswith (name file_path) (py ''_''))"
  unfolding is_valid_image_file_def startswith_stem py_lower_valid_four [OF assms]
  by auto

lemma py_suffix_append:
  assumes "X \<noteq> []" and "46 \<notin> set rest" and "rest \<noteq> []"
  shows "py_suffix (X @ 46 # rest) = 46 # rest"
proof -
  have tw: "takeWhile (\<lambda>x. x \<noteq> 46) (rev (X @ 46 # rest)) = rev rest"
    using assms(2) by (auto simp add: takeWhile_tail)
  have rf: "py_rfind (X @ 46 # rest) 46 = int (length X)"
    unfolding py_rfind_def tw by (simp add: py_len_def)
  show ?thesis
    unfolding py_suffix_def rf using assms(1,3) by (simp add: py_len_def)
qed

lemma four_shape:
  assumes "e \<in> {py ''.jpg'', py ''.jpeg'', py ''.png'', py ''.gif''}"
  shows "\<exists>rest. e = 46 # rest \<and> 46 \<notin> set rest \<and> rest \<noteq> []"
  using assms by (auto simp add: py_def)

lemma py_suffix_append_ext:
  assumes "n = X @ e" and "X \<noteq> []" and "e = 46 # rest" and "46 \<notin> set rest" and "rest \<noteq> []"
  shows "py_suffix n = e"
  unfolding assms(1) assms(3) by (rule py_suffix_append [OF assms(2,4,5)])

lemma name_at_shape: "\<exists>X. X \<noteq> [] \<and> name_at b e k = X @ e"
proof (cases "k = 0")
  case True
  have a: "name_at b e k = (py ''_'' @ b) @ e"
    unfolding name_at_def using True by simp
  have b: "py ''_'' @ b \<noteq> []" by (simp add: py_def)
  show ?thesis by (rule exI [of _ "py ''_'' @ b"]) (rule conjI [OF b a])
next
  case False
  define t where "t = slice_to b (MAX_FILENAME_LENGTH - py_len (str_nat k) - py_len e - 2)"
  have a: "name_at b e k = (py ''_'' @ t @ py ''_'' @ str_nat k) @ e"
    unfolding name_at_def numbered_name_def Let_def t_def using False by simp
  have b: "py ''_'' @ t @ py ''_'' @ str_nat k \<noteq> []" by (simp add: py_def)
  show ?thesis by (rule exI [of _ "py ''_'' @ t @ py ''_'' @ str_nat k"]) (rule conjI [OF b a])
qed

lemma py_suffix_name_at:
  assumes "e \<in> {py ''.jpg'', py ''.jpeg'', py ''.png'', py ''.gif''}"
  shows "py_suffix (name_at b e k) = e"
proof -
  obtain rest where e: "e = 46 # rest" "46 \<notin> set rest" "rest \<noteq> []"
    using four_shape [OF assms] by blast
  obtain X where X: "X \<noteq> []" "name_at b e k = X @ e"
    using name_at_shape by blast
  show ?thesis by (rule py_suffix_append_ext [OF X(2) X(1) e])
qed

lemma process_image_result:
  assumes "extract_text_from_image ocr (path image_file) = Inr extracted"
    and "generate_unique_filename (base_name_for alnum extracted image_file (registry w))
           (extension image_file) (registry w) = Some new_name"
  shows "process_image alnum ocr os_rename image_file w =
     (case os_rename (path image_file) (joinpath (parent (path image_file)) new_name) of
        Some e \<Rightarrow> Some (Inr (), w)
      | None \<Rightarrow>
          Some (Inr (),
            w\<lparr>registry := insert new_name (registry w),
              renamed := renamed w
                @ [(path image_file, joinpath (parent (path image_file)) new_name)]\<rparr>))"
  using assms by (simp add: process_image_def process_image_try_def split: option.split)

lemma discovered_file:
  assumes "no_ascii_capital lower_tbl"
    and "image_file \<in> set (get_image_files lower_tbl self is_file iterdir)"
  shows "path image_file \<in> set iterdir
    \<and> extension image_file = py_lower lower_tbl (py_suffix (name (path image_file)))
    \<and> extension image_file \<in> {py ''.jpg'', py ''.jpeg'', py ''.png'', py ''.gif''}"
proof -
  from assms(2) obtain p where p: "p \<in> set iterdir"
      "is_valid_image_file lower_tbl self is_file p"
      "image_file = \<lparr>path = p, original_name = py_stem (name p),
         extension = py_lower lower_tbl (py_suffix (name p))\<rparr>"
    unfolding get_image_files_def by auto
  from p(2) have "py_lower lower_tbl (py_suffix (name p))
      \<in> {py ''.jpg'', py ''.jpeg'', py ''.png'', py ''.gif''}"
    unfolding is_valid_image_file_eq [OF assms(1)] by blast
  with p(1,3) show ?thesis by simp
qed

text \<open>A run on one file with a capital extension.\<close>

lemma scan_discovered:
  "get_image_files (\<lambda>s i. [s ! i]) (ImageRenamer_init (py ''memes'') None None) (\<lambda>p. True)
      [\<lparr>parent = py ''memes'', name = py ''scan.PNG''\<rparr>]
   = [\<lparr>path = \<lparr>parent = py ''memes'', name = py ''scan.PNG''\<rparr>,
       original_name = py ''scan'', extension = py ''.png''\<rparr>]"
  by (simp add: get_image_files_def is_valid_image_file_def py_lower_def py_suffix_def
      py_stem_def py_rfind_def startswith_def VALID_EXTENSIONS_def ImageRenamer_init_def
      py_def py_len_def)

lemma scan_processed:
  "process_image (\<lambda>c. False) (\<lambda>p. Inr []) (\<lambda>src dst. None)
      \<lparr>path = \<lparr>parent = py ''memes'', name = py ''scan.PNG''\<rparr>,
       original_name = py ''scan'', extension = py ''.png''\<rparr>
      \<lparr>registry = {py ''photo.png'', py ''scan.PNG''}, renamed = []\<rparr>
   = Some (Inr (),
       \<lparr>registry = {py ''_meme_2.png'', py ''photo.png'', py ''scan.PNG''},
        renamed = [(\<lparr>parent = py ''memes'', name = py ''scan.PNG''\<rparr>,
                    \<lparr>parent = py ''memes'', name = py ''_meme_2.png''\<rparr>)]\<rparr>)"
proof -
  have c: "card {py ''photo.png'', py ''scan.PNG''} = 2" by (simp add: py_def)
  have s: "str_nat 2 = py ''2''" by (simp add: str_nat.simps py_def)
  have g: "generate_unique_filename (py ''meme_'' @ py ''2'') (py ''.png'')
             {py ''photo.png'', py ''scan.PNG''} = Some (py ''_meme_2.png'')"
    by (simp add: generate_unique_filename_def unique_loop.simps py_def)
  show ?thesis
    by (simp add: process_image_def process_image_try_def extract_text_from_image_def
        extract_text_try_def base_name_for_def c s g joinpath_def)
qed

text \<open>The definitions a concrete run unfolds.\<close>

lemmas model_defs =
  process_image_def process_image_try_def extract_text_from_image_def extract_text_try_def
  base_name_for_def generate_unique_filename_def unique_loop.simps numbered_name_def
  clean_text_for_filename_def joinpath_def py_strip_def rstrip_def slice_to_def py_len_def
  MAX_FILENAME_LENGTH_def is_word_def uni_alnum_def ascii_alnum_def is_space_def py_def

section \<open>The claims\<close>

text \<open>
  C1. For every base name, every extension and every finite set of existing names,
  \<^verbatim>\<open>generate_unique_filename\<close> returns, and the name it returns is not a member of
  the set. The name is the first candidate, the underscore followed by the base name
  and the extension, when that is not in the set. Otherwise it is the candidate with
  the truncated base name and a counter from 1 on, for the least counter whose
  candidate is not in the set.
\<close>

theorem generate_unique_filename_fresh:
  assumes "finite existing_names"
  shows "(\<exists>new_name. generate_unique_filename base_name ext existing_names = Some new_name
            \<and> new_name \<notin> existing_names)
    \<and> (py ''_'' @ base_name @ ext \<notin> existing_names \<longrightarrow>
          generate_unique_filename base_name ext existing_names
            = Some (py ''_'' @ base_name @ ext))
    \<and> (py ''_'' @ base_name @ ext \<in> existing_names \<longrightarrow>
          (\<exists>counter. 1 \<le> counter
             \<and> generate_unique_filename base_name ext existing_names
                 = Some (py ''_''
                     @ slice_to base_name
                         (MAX_FILENAME_LENGTH - py_len (str_nat counter) - py_len ext - 2)
                     @ py ''_'' @ str_nat counter @ ext)
             \<and> py ''_''
                 @ slice_to base_name
                     (MAX_FILENAME_LENGTH - py_len (str_nat counter) - py_len ext - 2)
                 @ py ''_'' @ str_nat counter @ ext \<notin> existing_names
             \<and> (\<forall>c. 1 \<le> c \<and> c < counter \<longrightarrow>
                   py ''_''
                   @ slice_to base_name
                       (MAX_FILENAME_LENGTH - py_len (str_nat c) - py_len ext - 2)
                   @ py ''_'' @ str_nat c @ ext \<in> existing_names)))"
proof -
  obtain k where r: "generate_unique_filename base_name ext existing_names
        = Some (name_at base_name ext k)"
    and f: "name_at base_name ext k \<notin> existing_names"
    and e: "\<forall>j<k. name_at base_name ext j \<in> existing_names"
    using generate_unique_filename_least [OF assms, of base_name ext] by blast
  have first: "name_at base_name ext 0 = py ''_'' @ base_name @ ext"
    by (simp add: name_at_def)
  have later: "name_at base_name ext c
      = py ''_''
        @ slice_to base_name (MAX_FILENAME_LENGTH - py_len (str_nat c) - py_len ext - 2)
        @ py ''_'' @ str_nat c @ ext" if "1 \<le> c" for c
    using that by (simp add: name_at_def)
  have p1: "\<exists>new_name. generate_unique_filename base_name ext existing_names = Some new_name
            \<and> new_name \<notin> existing_names"
    using r f by (intro exI conjI)
  have p2: "generate_unique_filename base_name ext existing_names
            = Some (py ''_'' @ base_name @ ext)"
    if out: "py ''_'' @ base_name @ ext \<notin> existing_names"
  proof (cases "k = 0")
    case True
    with r first show ?thesis by simp
  next
    case False
    then have "0 < k" by simp
    with e have "name_at base_name ext 0 \<in> existing_names" by blast
    with out first show ?thesis by simp
  qed
  have p3: "\<exists>counter. 1 \<le> counter
             \<and> generate_unique_filename base_name ext existing_names
                 = Some (py ''_''
                     @ slice_to base_name
                         (MAX_FILENAME_LENGTH - py_len (str_nat counter) - py_len ext - 2)
                     @ py ''_'' @ str_nat counter @ ext)
             \<and> py ''_''
                 @ slice_to base_name
                     (MAX_FILENAME_LENGTH - py_len (str_nat counter) - py_len ext - 2)
                 @ py ''_'' @ str_nat counter @ ext \<notin> existing_names
             \<and> (\<forall>c. 1 \<le> c \<and> c < counter \<longrightarrow>
                   py ''_''
                   @ slice_to base_name
                       (MAX_FILENAME_LENGTH - py_len (str_nat c) - py_len ext - 2)
                   @ py ''_'' @ str_nat c @ ext \<in> existing_names)"
    if taken: "py ''_'' @ base_name @ ext \<in> existing_names"
  proof -
    have k1: "1 \<le> k"
    proof (rule ccontr)
      assume "\<not> 1 \<le> k"
      then have "k = 0" by simp
      with f first taken show False by simp
    qed
    have a: "generate_unique_filename base_name ext existing_names
        = Some (py ''_''
            @ slice_to base_name (MAX_FILENAME_LENGTH - py_len (str_nat k) - py_len ext - 2)
            @ py ''_'' @ str_nat k @ ext)"
      using r later [OF k1] by simp
    have b: "py ''_''
            @ slice_to base_name (MAX_FILENAME_LENGTH - py_len (str_nat k) - py_len ext - 2)
            @ py ''_'' @ str_nat k @ ext \<notin> existing_names"
      using f later [OF k1] by simp
    have c: "\<forall>c. 1 \<le> c \<and> c < k \<longrightarrow>
                   py ''_''
                   @ slice_to base_name
                       (MAX_FILENAME_LENGTH - py_len (str_nat c) - py_len ext - 2)
                   @ py ''_'' @ str_nat c @ ext \<in> existing_names"
    proof (intro allI impI)
      fix c assume c: "1 \<le> c \<and> c < k"
      then have "name_at base_name ext c \<in> existing_names" using e by blast
      with c later [of c] show "py ''_''
                   @ slice_to base_name
                       (MAX_FILENAME_LENGTH - py_len (str_nat c) - py_len ext - 2)
                   @ py ''_'' @ str_nat c @ ext \<in> existing_names" by simp
    qed
    show ?thesis by (rule exI [of _ k]) (intro conjI k1 a b c)
  qed
  show ?thesis using p1 p2 p3 by (intro conjI impI)
qed

theorem generate_unique_filename_fresh_witness:
  "finite {py ''_a.png'', py ''_a_1.png''}
   \<and> generate_unique_filename (py ''a'') (py ''.png'') {py ''_a.png'', py ''_a_1.png''}
       = Some (py ''_a_2.png'')
   \<and> py ''_a_2.png'' \<notin> {py ''_a.png'', py ''_a_1.png''}
   \<and> generate_unique_filename (py ''a'') (py ''.png'') {py ''photo.png''}
       = Some (py ''_a.png'')"
proof -
  have fin: "finite {py ''_a.png'', py ''_a_1.png''}" by simp
  have fin2: "finite {py ''photo.png''}" by simp
  have v: "generate_unique_filename (py ''a'') (py ''.png'') {py ''_a.png'', py ''_a_1.png''}
       = Some (py ''_a_2.png'')"
    by (simp add: generate_unique_filename_def unique_loop.simps numbered_name_def
        slice_to_def py_len_def MAX_FILENAME_LENGTH_def str_nat.simps py_def)
  from generate_unique_filename_fresh [OF fin, of "py ''a''" "py ''.png''", THEN conjunct1] v
  have out: "py ''_a_2.png'' \<notin> {py ''_a.png'', py ''_a_1.png''}" by auto
  have "py ''_'' @ py ''a'' @ py ''.png'' \<notin> {py ''photo.png''}" by (simp add: py_def)
  with generate_unique_filename_fresh [OF fin2, of "py ''a''" "py ''.png''"]
  have "generate_unique_filename (py ''a'') (py ''.png'') {py ''photo.png''}
       = Some (py ''_'' @ py ''a'' @ py ''.png'')" by blast
  then have w: "generate_unique_filename (py ''a'') (py ''.png'') {py ''photo.png''}
       = Some (py ''_a.png'')" by (simp add: py_def)
  show ?thesis by (intro conjI fin v out w)
qed

text \<open>
  C3. For every text and every length budget that is not negative, the result of
  \<^verbatim>\<open>clean_text_for_filename\<close> is at most that long, holds no whitespace character
  and no two underscores in a row, and, unless it is empty, starts with one of the
  characters \<^verbatim>\<open>a-z\<close>, \<^verbatim>\<open>A-Z\<close>, \<^verbatim>\<open>0-9\<close>.
\<close>

theorem clean_text_for_filename_shape:
  assumes "0 \<le> max_length"
  shows "py_len (clean_text_for_filename alnum text max_length) \<le> max_length
    \<and> (\<forall>c \<in> set (clean_text_for_filename alnum text max_length). \<not> is_space c)
    \<and> \<not> sublist [underscore, underscore] (clean_text_for_filename alnum text max_length)
    \<and> (clean_text_for_filename alnum text max_length \<noteq> []
         \<longrightarrow> ascii_alnum (hd (clean_text_for_filename alnum text max_length)))"
proof (intro conjI ballI impI)
  let ?r = "clean_text_for_filename alnum text max_length"
  have pre: "prefix ?r (normalised alnum text)"
    by (rule clean_prefix_normalised [OF assms])
  have "prefix ?r (slice_to (normalised alnum text) max_length)"
    unfolding clean_text_for_filename_normalised by (rule rstrip_prefix)
  then have "py_len ?r \<le> py_len (slice_to (normalised alnum text) max_length)"
    by (simp add: py_len_def prefix_length_le)
  also have "\<dots> \<le> max_length" by (rule slice_to_length [OF assms])
  finally show "py_len ?r \<le> max_length" .
  show "\<not> is_space c" if "c \<in> set ?r" for c
    using that set_mono_prefix [OF pre] normalised_chars [of c alnum "text"] by blast
  show "\<not> sublist [underscore, underscore] ?r"
    using normalised_no_pair [of alnum "text"] prefix_imp_sublist [OF pre] sublist_order.order.trans
    by blast
  show "ascii_alnum (hd ?r)" if "?r \<noteq> []"
  proof -
    have "hd ?r = hd (normalised alnum text)" by (rule prefix_hd [OF pre that])
    moreover have "normalised alnum text \<noteq> []" using pre that by auto
    ultimately show ?thesis using normalised_hd by simp
  qed
qed

theorem clean_text_for_filename_shape_witness:
  "(0::int) \<le> 5
   \<and> clean_text_for_filename (\<lambda>c. False) (py ''  --Sale   50% __ off!!  now'') 5 = py ''Sale''
   \<and> py_len (clean_text_for_filename (\<lambda>c. False) (py ''  --Sale   50% __ off!!  now'') 5) \<le> 5
   \<and> list_all (\<lambda>c. \<not> is_space c)
        (clean_text_for_filename (\<lambda>c. False) (py ''  --Sale   50% __ off!!  now'') 5)
   \<and> \<not> sublist [underscore, underscore]
        (clean_text_for_filename (\<lambda>c. False) (py ''  --Sale   50% __ off!!  now'') 5)
   \<and> ascii_alnum (hd (clean_text_for_filename (\<lambda>c. False) (py ''  --Sale   50% __ off!!  now'') 5))"
proof -
  have v: "clean_text_for_filename (\<lambda>c. False) (py ''  --Sale   50% __ off!!  now'') 5 = py ''Sale''"
    by (simp add: clean_text_for_filename_def py_def is_word_def uni_alnum_def ascii_alnum_def
        is_space_def rstrip_def slice_to_def)
  have ne: "clean_text_for_filename (\<lambda>c. False) (py ''  --Sale   50% __ off!!  now'') 5 \<noteq> []"
    unfolding v by (simp add: py_def)
  have h: "(0::int) \<le> 5" by simp
  from clean_text_for_filename_shape [OF h, of "\<lambda>c. False" "py ''  --Sale   50% __ off!!  now''"]
    v ne h
  show ?thesis unfolding list_all_iff by blast
qed


text \<open>
  C4. \<^verbatim>\<open>generate_unique_filename\<close> returns for every base name shorter than the
  maximum filename length, every extension and every finite set of names: after at
  most one iteration more than the set has members the loop holds a name outside the
  set and returns it, every name it held before being in the set. The proof makes no
  use of the bound on the base name.
\<close>

theorem generate_unique_filename_terminates:
  assumes "finite existing_names" and "py_len base_name < MAX_FILENAME_LENGTH"
  shows "\<exists>k \<le> card existing_names + 1.
           generate_unique_filename base_name ext existing_names = Some (name_at base_name ext k)
         \<and> name_at base_name ext k \<notin> existing_names
         \<and> (\<forall>j<k. name_at base_name ext j \<in> existing_names)"
  using generate_unique_filename_least [OF assms(1), of base_name ext] by blast

theorem generate_unique_filename_terminates_witness:
  "finite {py ''_a.png''} \<and> py_len (py ''a'') < MAX_FILENAME_LENGTH
   \<and> generate_unique_filename (py ''a'') (py ''.png'') {py ''_a.png''} = Some (py ''_a_1.png'')
   \<and> name_at (py ''a'') (py ''.png'') 0 = py ''_a.png''
   \<and> name_at (py ''a'') (py ''.png'') 1 = py ''_a_1.png''
   \<and> (\<exists>k \<le> card {py ''_a.png''} + 1.
        generate_unique_filename (py ''a'') (py ''.png'') {py ''_a.png''}
          = Some (name_at (py ''a'') (py ''.png'') k)
      \<and> name_at (py ''a'') (py ''.png'') k \<notin> {py ''_a.png''}
      \<and> (\<forall>j<k. name_at (py ''a'') (py ''.png'') j \<in> {py ''_a.png''}))"
proof -
  have fin: "finite {py ''_a.png''}" by simp
  have len: "py_len (py ''a'') < MAX_FILENAME_LENGTH"
    by (simp add: py_len_def MAX_FILENAME_LENGTH_def py_def)
  have v: "generate_unique_filename (py ''a'') (py ''.png'') {py ''_a.png''}
      = Some (py ''_a_1.png'')"
    by (simp add: generate_unique_filename_def unique_loop.simps numbered_name_def
        slice_to_def py_len_def MAX_FILENAME_LENGTH_def str_nat.simps py_def)
  have n0: "name_at (py ''a'') (py ''.png'') 0 = py ''_a.png''"
    by (simp add: name_at_def py_def)
  have n1: "name_at (py ''a'') (py ''.png'') 1 = py ''_a_1.png''"
    by (simp add: name_at_def slice_to_def py_len_def MAX_FILENAME_LENGTH_def
        str_nat.simps py_def)
  show ?thesis
    by (intro conjI fin len v n0 n1
        generate_unique_filename_terminates [OF fin len, of "py ''.png''"])
qed

text \<open>
  C7. \<^verbatim>\<open>extract_text_from_image\<close> never raises. When opening the image or the OCR
  run raises, it returns \<^verbatim>\<open>None\<close>; when the OCR output is empty, it returns
  \<^verbatim>\<open>None\<close>; otherwise it returns the output without its leading and trailing
  whitespace: what was cut on either side is whitespace, and what is left neither starts
  nor ends with whitespace.
\<close>

theorem extract_text_from_image_never_raises:
  "(\<forall>e. extract_text_from_image ocr image_path \<noteq> Inl e)
   \<and> (\<forall>e. ocr image_path = Inl e \<longrightarrow> extract_text_from_image ocr image_path = Inr None)
   \<and> (ocr image_path = Inr [] \<longrightarrow> extract_text_from_image ocr image_path = Inr None)
   \<and> (\<forall>t. ocr image_path = Inr t \<and> t \<noteq> [] \<longrightarrow>
         (\<exists>a b r. extract_text_from_image ocr image_path = Inr (Some r)
            \<and> t = a @ r @ b \<and> list_all is_space a \<and> list_all is_space b
            \<and> (r = [] \<or> (\<not> is_space (hd r) \<and> \<not> is_space (last r)))))"
proof (intro conjI allI impI)
  fix e
  show "extract_text_from_image ocr image_path \<noteq> Inl e"
    by (simp add: extract_text_from_image_def split: sum.split)
  show "extract_text_from_image ocr image_path = Inr None" if "ocr image_path = Inl e"
    using that by (simp add: extract_text_from_image_def extract_text_try_def)
next
  show "extract_text_from_image ocr image_path = Inr None" if "ocr image_path = Inr []"
    using that by (simp add: extract_text_from_image_def extract_text_try_def)
next
  fix t
  assume t: "ocr image_path = Inr t \<and> t \<noteq> []"
  then have "extract_text_from_image ocr image_path = Inr (Some (py_strip t))"
    by (simp add: extract_text_from_image_def extract_text_try_def)
  with py_strip_trimmed [of t]
  show "\<exists>a b r. extract_text_from_image ocr image_path = Inr (Some r)
            \<and> t = a @ r @ b \<and> list_all is_space a \<and> list_all is_space b
            \<and> (r = [] \<or> (\<not> is_space (hd r) \<and> \<not> is_space (last r)))"
    by blast
qed

theorem extract_text_from_image_never_raises_witness:
  "extract_text_from_image (\<lambda>p. Inr (py '' Hello World!  ''))
       \<lparr>parent = py ''memes'', name = py ''photo.png''\<rparr> = Inr (Some (py ''Hello World!''))
   \<and> extract_text_from_image (\<lambda>p. Inl (Exception ''cannot identify image file''))
       \<lparr>parent = py ''memes'', name = py ''photo.png''\<rparr> = Inr None"
  using extract_text_from_image_never_raises
          [of "\<lambda>p. Inr (py '' Hello World!  '')" "\<lparr>parent = py ''memes'', name = py ''photo.png''\<rparr>"]
        extract_text_from_image_never_raises
          [of "\<lambda>p. Inl (Exception ''cannot identify image file'')"
              "\<lparr>parent = py ''memes'', name = py ''photo.png''\<rparr>"]
  by (simp add: extract_text_from_image_def extract_text_try_def py_strip_def py_def is_space_def)


text \<open>
  C8. \<^verbatim>\<open>process_image\<close> never lets an exception out. On a finite registry it
  returns; the extraction yields a text or nothing, the allocator yields a name, and
  when the operating system refuses the rename to that name, the registry and the
  directory are as they were. When the rename succeeds, the name is added to the
  registry.
\<close>

theorem process_image_contains_errors:
  assumes "finite (registry w)"
  shows "\<exists>text new_name.
      extract_text_from_image ocr (path image_file) = Inr text
    \<and> generate_unique_filename (base_name_for alnum text image_file (registry w))
          (extension image_file) (registry w) = Some new_name
    \<and> (\<forall>e w'. process_image alnum ocr os_rename image_file w \<noteq> Some (Inl e, w'))
    \<and> (\<forall>e. os_rename (path image_file) (joinpath (parent (path image_file)) new_name) = Some e
          \<longrightarrow> process_image alnum ocr os_rename image_file w = Some (Inr (), w))
    \<and> (os_rename (path image_file) (joinpath (parent (path image_file)) new_name) = None
          \<longrightarrow> process_image alnum ocr os_rename image_file w =
                Some (Inr (),
                  w\<lparr>registry := insert new_name (registry w),
                    renamed := renamed w
                      @ [(path image_file, joinpath (parent (path image_file)) new_name)]\<rparr>))"
proof -
  obtain extracted where extracted: "extract_text_from_image ocr (path image_file) = Inr extracted"
    using extract_text_from_image_Inr by blast
  obtain new_name where
    nn: "generate_unique_filename (base_name_for alnum extracted image_file (registry w))
           (extension image_file) (registry w) = Some new_name"
    using generate_unique_filename_result [OF assms] by blast
  have fail: "process_image alnum ocr os_rename image_file w = Some (Inr (), w)"
    if "os_rename (path image_file) (joinpath (parent (path image_file)) new_name) = Some e" for e
    using that extracted nn by (simp add: process_image_def process_image_try_def)
  have ok: "process_image alnum ocr os_rename image_file w =
      Some (Inr (), w\<lparr>registry := insert new_name (registry w),
         renamed := renamed w @ [(path image_file, joinpath (parent (path image_file)) new_name)]\<rparr>)"
    if "os_rename (path image_file) (joinpath (parent (path image_file)) new_name) = None"
    using that extracted nn by (simp add: process_image_def process_image_try_def)
  show ?thesis
  proof (intro exI conjI allI impI)
    show "extract_text_from_image ocr (path image_file) = Inr extracted" by (rule extracted)
    show "generate_unique_filename (base_name_for alnum extracted image_file (registry w))
           (extension image_file) (registry w) = Some new_name" by (rule nn)
    show "process_image alnum ocr os_rename image_file w \<noteq> Some (Inl e, w')" for e w'
      by (rule process_image_never_Inl)
    show "process_image alnum ocr os_rename image_file w = Some (Inr (), w)"
      if "os_rename (path image_file) (joinpath (parent (path image_file)) new_name) = Some e" for e
      using that by (rule fail)
    show "process_image alnum ocr os_rename image_file w =
      Some (Inr (), w\<lparr>registry := insert new_name (registry w),
         renamed := renamed w @ [(path image_file, joinpath (parent (path image_file)) new_name)]\<rparr>)"
      if "os_rename (path image_file) (joinpath (parent (path image_file)) new_name) = None"
      using that by (rule ok)
  qed
qed

theorem process_image_contains_errors_witness:
  "finite (registry \<lparr>registry = {py ''photo.png''}, renamed = []\<rparr>)
   \<and> process_image (\<lambda>c. False) (\<lambda>p. Inr (py ''Hello World!''))
        (\<lambda>src dst. Some (Exception ''Permission denied''))
        \<lparr>path = \<lparr>parent = py ''memes'', name = py ''photo.png''\<rparr>,
         original_name = py ''photo'', extension = py ''.png''\<rparr>
        \<lparr>registry = {py ''photo.png''}, renamed = []\<rparr>
      = Some (Inr (), \<lparr>registry = {py ''photo.png''}, renamed = []\<rparr>)
   \<and> process_image (\<lambda>c. False) (\<lambda>p. Inr (py ''Hello World!''))
        (\<lambda>src dst. None)
        \<lparr>path = \<lparr>parent = py ''memes'', name = py ''photo.png''\<rparr>,
         original_name = py ''photo'', extension = py ''.png''\<rparr>
        \<lparr>registry = {py ''photo.png''}, renamed = []\<rparr>
      = Some (Inr (),
          \<lparr>registry = {py ''_Hello_World.png'', py ''photo.png''},
           renamed = [(\<lparr>parent = py ''memes'', name = py ''photo.png''\<rparr>,
                       \<lparr>parent = py ''memes'', name = py ''_Hello_World.png''\<rparr>)]\<rparr>)"
proof -
  have fin: "finite (registry \<lparr>registry = {py ''photo.png''}, renamed = []\<rparr>)" by simp
  have a: "process_image (\<lambda>c. False) (\<lambda>p. Inr (py ''Hello World!''))
        (\<lambda>src dst. Some (Exception ''Permission denied''))
        \<lparr>path = \<lparr>parent = py ''memes'', name = py ''photo.png''\<rparr>,
         original_name = py ''photo'', extension = py ''.png''\<rparr>
        \<lparr>registry = {py ''photo.png''}, renamed = []\<rparr>
      = Some (Inr (), \<lparr>registry = {py ''photo.png''}, renamed = []\<rparr>)"
    using process_image_contains_errors [OF fin, of "\<lambda>p. Inr (py ''Hello World!'')"
        "\<lparr>path = \<lparr>parent = py ''memes'', name = py ''photo.png''\<rparr>,
         original_name = py ''photo'', extension = py ''.png''\<rparr>" "\<lambda>c. False"
        "\<lambda>src dst. Some (Exception ''Permission denied'')"]
    by blast
  have b: "process_image (\<lambda>c. False) (\<lambda>p. Inr (py ''Hello World!''))
        (\<lambda>src dst. None)
        \<lparr>path = \<lparr>parent = py ''memes'', name = py ''photo.png''\<rparr>,
         original_name = py ''photo'', extension = py ''.png''\<rparr>
        \<lparr>registry = {py ''photo.png''}, renamed = []\<rparr>
      = Some (Inr (),
          \<lparr>registry = {py ''_Hello_World.png'', py ''photo.png''},
           renamed = [(\<lparr>parent = py ''memes'', name = py ''photo.png''\<rparr>,
                       \<lparr>parent = py ''memes'', name = py ''_Hello_World.png''\<rparr>)]\<rparr>)"
    by (simp add: model_defs)
  from fin a b show ?thesis by blast
qed


text \<open>
  C9. Sanitizing is idempotent: when the result of \<^verbatim>\<open>clean_text_for_filename\<close> is
  no longer than the budget, sanitizing it again under the same budget returns it
  unchanged.
\<close>

theorem clean_text_for_filename_idempotent:
  assumes "py_len (clean_text_for_filename alnum text max_length) \<le> max_length"
  shows "clean_text_for_filename alnum (clean_text_for_filename alnum text max_length) max_length
           = clean_text_for_filename alnum text max_length"
proof -
  let ?r = "clean_text_for_filename alnum text max_length"
  have nonneg: "0 \<le> max_length" using assms by (simp add: py_len_def)
  have pre: "prefix ?r (normalised alnum text)"
    by (rule clean_prefix_normalised [OF nonneg])
  show ?thesis
  proof (rule clean_text_for_filename_fixed [OF _ _ _ assms])
    show "is_word alnum c \<and> \<not> is_space c" if "c \<in> set ?r" for c
      using that set_mono_prefix [OF pre] normalised_chars [of c alnum "text"] by blast
    show "\<not> sublist [underscore, underscore] ?r"
      using normalised_no_pair [of alnum "text"] prefix_imp_sublist [OF pre] sublist_order.order.trans
      by blast
    show "?r = [] \<or> ascii_alnum (hd ?r)"
    proof (cases "?r = []")
      case False
      have "hd ?r = hd (normalised alnum text)" by (rule prefix_hd [OF pre False])
      moreover have "normalised alnum text \<noteq> []" using pre False by auto
      ultimately show ?thesis using normalised_hd by simp
    qed simp
    show "?r = [] \<or> last ?r \<noteq> underscore"
      unfolding clean_text_for_filename_normalised using rstrip_last by blast
  qed
qed

theorem clean_text_for_filename_idempotent_witness:
  "py_len (clean_text_for_filename (\<lambda>c. False) (py ''Hello World!'') 248) \<le> 248
   \<and> clean_text_for_filename (\<lambda>c. False) (py ''Hello World!'') 248 = py ''Hello_World''
   \<and> clean_text_for_filename (\<lambda>c. False) (py ''Hello_World'') 248 = py ''Hello_World''"
proof -
  have v: "clean_text_for_filename (\<lambda>c. False) (py ''Hello World!'') 248 = py ''Hello_World''"
    by (simp add: clean_text_for_filename_def py_def is_word_def uni_alnum_def ascii_alnum_def
        is_space_def rstrip_def slice_to_def)
  have h: "py_len (clean_text_for_filename (\<lambda>c. False) (py ''Hello World!'') 248) \<le> 248"
    unfolding v by (simp add: py_len_def py_def)
  from clean_text_for_filename_idempotent [OF h] v h
  show ?thesis by simp
qed


text \<open>
  C10. When the OCR engine returns a string that is not empty and holds whitespace
  only, the extracted text is the empty string, and \<^verbatim>\<open>process_image\<close> takes the
  generic base name \<^verbatim>\<open>meme_N\<close>, with \<open>N\<close> the size of the registry, as it does for
  an absent text: the file is renamed to the name the allocator makes of that base
  name.
\<close>

theorem process_image_blank_text:
  assumes "ocr (path image_file) = Inr t" and "t \<noteq> []" and "list_all is_space t"
    and "finite (registry w)"
  shows "extract_text_from_image ocr (path image_file) = Inr (Some [])
    \<and> base_name_for alnum (Some []) image_file (registry w)
        = py ''meme_'' @ str_nat (card (registry w))
    \<and> base_name_for alnum (Some []) image_file (registry w)
        = base_name_for alnum None image_file (registry w)
    \<and> (\<exists>new_name.
          generate_unique_filename (py ''meme_'' @ str_nat (card (registry w)))
            (extension image_file) (registry w) = Some new_name
        \<and> process_image alnum ocr os_rename image_file w =
            (case os_rename (path image_file) (joinpath (parent (path image_file)) new_name) of
               Some e \<Rightarrow> Some (Inr (), w)
             | None \<Rightarrow>
                 Some (Inr (),
                   w\<lparr>registry := insert new_name (registry w),
                     renamed := renamed w
                       @ [(path image_file, joinpath (parent (path image_file)) new_name)]\<rparr>)))"
proof -
  have ex: "extract_text_from_image ocr (path image_file) = Inr (Some [])"
    using assms(1,2) py_strip_blank [OF assms(3)]
    by (simp add: extract_text_from_image_def extract_text_try_def)
  have base: "base_name_for alnum (Some []) image_file (registry w)
        = py ''meme_'' @ str_nat (card (registry w))"
    by (simp add: base_name_for_def)
  have same: "base_name_for alnum (Some []) image_file (registry w)
        = base_name_for alnum None image_file (registry w)"
    by (simp add: base_name_for_def)
  obtain new_name where
    nn: "generate_unique_filename (py ''meme_'' @ str_nat (card (registry w)))
           (extension image_file) (registry w) = Some new_name"
    using generate_unique_filename_result [OF assms(4)] by blast
  have "process_image alnum ocr os_rename image_file w =
            (case os_rename (path image_file) (joinpath (parent (path image_file)) new_name) of
               Some e \<Rightarrow> Some (Inr (), w)
             | None \<Rightarrow>
                 Some (Inr (),
                   w\<lparr>registry := insert new_name (registry w),
                     renamed := renamed w
                       @ [(path image_file, joinpath (parent (path image_file)) new_name)]\<rparr>))"
    using nn by (simp add: process_image_def process_image_try_def ex base split: option.split)
  with ex base same nn show ?thesis by blast
qed

theorem process_image_blank_text_witness:
  "(\<lambda>p. Inr (py ''  ''))
       (path \<lparr>path = \<lparr>parent = py ''memes'', name = py ''scan.PNG''\<rparr>,
              original_name = py ''scan'', extension = py ''.png''\<rparr>) = (Inr (py ''  '') :: exn + pstr)
   \<and> py ''  '' \<noteq> [] \<and> list_all is_space (py ''  '')
   \<and> finite (registry \<lparr>registry = {py ''photo.png'', py ''scan.PNG''}, renamed = []\<rparr>)
   \<and> process_image (\<lambda>c. False) (\<lambda>p. Inr (py ''  '')) (\<lambda>src dst. None)
        \<lparr>path = \<lparr>parent = py ''memes'', name = py ''scan.PNG''\<rparr>,
         original_name = py ''scan'', extension = py ''.png''\<rparr>
        \<lparr>registry = {py ''photo.png'', py ''scan.PNG''}, renamed = []\<rparr>
      = Some (Inr (),
          \<lparr>registry = {py ''_meme_2.png'', py ''photo.png'', py ''scan.PNG''},
           renamed = [(\<lparr>parent = py ''memes'', name = py ''scan.PNG''\<rparr>,
                       \<lparr>parent = py ''memes'', name = py ''_meme_2.png''\<rparr>)]\<rparr>)"
proof -
  have h1: "(\<lambda>p. Inr (py ''  ''))
       (path \<lparr>path = \<lparr>parent = py ''memes'', name = py ''scan.PNG''\<rparr>,
              original_name = py ''scan'', extension = py ''.png''\<rparr>) = (Inr (py ''  '') :: exn + pstr)"
    by simp
  have h2: "py ''  '' \<noteq> []" by (simp add: py_def)
  have h3: "list_all is_space (py ''  '')" by (simp add: py_def is_space_def)
  have h4: "finite (registry \<lparr>registry = {py ''photo.png'', py ''scan.PNG''}, renamed = []\<rparr>)"
    by simp
  have c: "card {py ''photo.png'', py ''scan.PNG''} = 2" by (simp add: py_def)
  have s: "str_nat 2 = py ''2''" by (simp add: str_nat.simps py_def)
  have g: "generate_unique_filename (py ''meme_'' @ py ''2'') (py ''.png'')
             {py ''photo.png'', py ''scan.PNG''} = Some (py ''_meme_2.png'')"
    by (simp add: generate_unique_filename_def unique_loop.simps py_def)
  from process_image_blank_text
         [where alnum = "\<lambda>c. False" and os_rename = "\<lambda>src dst. None"
           and image_file = "\<lparr>path = \<lparr>parent = py ''memes'', name = py ''scan.PNG''\<rparr>,
              original_name = py ''scan'', extension = py ''.png''\<rparr>", OF h1 h2 h3 h4]
  have "process_image (\<lambda>c. False) (\<lambda>p. Inr (py ''  '')) (\<lambda>src dst. None)
        \<lparr>path = \<lparr>parent = py ''memes'', name = py ''scan.PNG''\<rparr>,
         original_name = py ''scan'', extension = py ''.png''\<rparr>
        \<lparr>registry = {py ''photo.png'', py ''scan.PNG''}, renamed = []\<rparr>
      = Some (Inr (),
          \<lparr>registry = {py ''_meme_2.png'', py ''photo.png'', py ''scan.PNG''},
           renamed = [(\<lparr>parent = py ''memes'', name = py ''scan.PNG''\<rparr>,
                       \<lparr>parent = py ''memes'', name = py ''_meme_2.png''\<rparr>)]\<rparr>)"
    by (simp add: c s g joinpath_def)
  with h1 h2 h3 h4 show ?thesis by blast
qed

text \<open>
  C6. Discovery returns an entry of the listing if and only if it is a regular file,
  its extension in lower case is one of \<^verbatim>\<open>.jpg\<close>, \<^verbatim>\<open>.jpeg\<close>, \<^verbatim>\<open>.png\<close>, \<^verbatim>\<open>.gif\<close>
  (so every spelling of these in capitals and small letters is accepted and nothing
  else is; the two further members of \<^verbatim>\<open>VALID_EXTENSIONS\<close> are never met), and,
  when \<^verbatim>\<open>skip_existing\<close> is set, its name does not start with an underscore. A
  renamer built without the flag has \<^verbatim>\<open>skip_existing\<close> set.
\<close>

theorem is_valid_image_file_iff:
  assumes "no_ascii_capital lower_tbl"
  shows "(file_path \<in> set (map path (get_image_files lower_tbl self is_file iterdir)) \<longleftrightarrow>
        file_path \<in> set iterdir
      \<and> is_file file_path
      \<and> py_lower lower_tbl (py_suffix (name file_path))
          \<in> {py ''.jpg'', py ''.jpeg'', py ''.png'', py ''.gif''}
      \<and> (skip_existing self \<longrightarrow> \<not> startswith (name file_path) (py ''_'')))
    \<and> skip_existing (ImageRenamer_init dir None verb)"
proof
  have "map path (get_image_files lower_tbl self is_file iterdir)
      = filter (is_valid_image_file lower_tbl self is_file) iterdir"
    by (simp add: get_image_files_def comp_def)
  then show "file_path \<in> set (map path (get_image_files lower_tbl self is_file iterdir)) \<longleftrightarrow>
        file_path \<in> set iterdir
      \<and> is_file file_path
      \<and> py_lower lower_tbl (py_suffix (name file_path))
          \<in> {py ''.jpg'', py ''.jpeg'', py ''.png'', py ''.gif''}
      \<and> (skip_existing self \<longrightarrow> \<not> startswith (name file_path) (py ''_''))"
    using is_valid_image_file_eq [OF assms, of self is_file file_path] by auto
  show "skip_existing (ImageRenamer_init dir None verb)"
    by (simp add: ImageRenamer_init_def)
qed

theorem is_valid_image_file_iff_witness:
  "no_ascii_capital (\<lambda>s i. [s ! i])
   \<and> skip_existing (ImageRenamer_init (py ''memes'') None None)
   \<and> map path (get_image_files (\<lambda>s i. [s ! i]) (ImageRenamer_init (py ''memes'') None None)
        (\<lambda>p. name p \<noteq> py ''dir.png'')
        [\<lparr>parent = py ''memes'', name = py ''cat.PNG''\<rparr>,
         \<lparr>parent = py ''memes'', name = py ''_seen.jpg''\<rparr>,
         \<lparr>parent = py ''memes'', name = py ''dir.png''\<rparr>,
         \<lparr>parent = py ''memes'', name = py ''notes.txt''\<rparr>,
         \<lparr>parent = py ''memes'', name = py ''dog.JpEg''\<rparr>])
     = [\<lparr>parent = py ''memes'', name = py ''cat.PNG''\<rparr>,
        \<lparr>parent = py ''memes'', name = py ''dog.JpEg''\<rparr>]"
proof -
  have h: "no_ascii_capital (\<lambda>s i. [s ! i])"
    by (auto simp add: no_ascii_capital_def)
  note d = is_valid_image_file_def py_lower_def py_suffix_def py_stem_def py_rfind_def
    startswith_def VALID_EXTENSIONS_def ImageRenamer_init_def py_def py_len_def
  have v1: "is_valid_image_file (\<lambda>s i. [s ! i]) (ImageRenamer_init (py ''memes'') None None)
        (\<lambda>p. name p \<noteq> py ''dir.png'') \<lparr>parent = py ''memes'', name = py ''cat.PNG''\<rparr>"
    by (simp add: d)
  have v2: "\<not> is_valid_image_file (\<lambda>s i. [s ! i]) (ImageRenamer_init (py ''memes'') None None)
        (\<lambda>p. name p \<noteq> py ''dir.png'') \<lparr>parent = py ''memes'', name = py ''_seen.jpg''\<rparr>"
    by (simp add: d)
  have v3: "\<not> is_valid_image_file (\<lambda>s i. [s ! i]) (ImageRenamer_init (py ''memes'') None None)
        (\<lambda>p. name p \<noteq> py ''dir.png'') \<lparr>parent = py ''memes'', name = py ''dir.png''\<rparr>"
    by (simp add: d)
  have v4: "\<not> is_valid_image_file (\<lambda>s i. [s ! i]) (ImageRenamer_init (py ''memes'') None None)
        (\<lambda>p. name p \<noteq> py ''dir.png'') \<lparr>parent = py ''memes'', name = py ''notes.txt''\<rparr>"
    by (simp add: d)
  have v5: "is_valid_image_file (\<lambda>s i. [s ! i]) (ImageRenamer_init (py ''memes'') None None)
        (\<lambda>p. name p \<noteq> py ''dir.png'') \<lparr>parent = py ''memes'', name = py ''dog.JpEg''\<rparr>"
    by (simp add: d)
  have v: "map path (get_image_files (\<lambda>s i. [s ! i]) (ImageRenamer_init (py ''memes'') None None)
        (\<lambda>p. name p \<noteq> py ''dir.png'')
        [\<lparr>parent = py ''memes'', name = py ''cat.PNG''\<rparr>,
         \<lparr>parent = py ''memes'', name = py ''_seen.jpg''\<rparr>,
         \<lparr>parent = py ''memes'', name = py ''dir.png''\<rparr>,
         \<lparr>parent = py ''memes'', name = py ''notes.txt''\<rparr>,
         \<lparr>parent = py ''memes'', name = py ''dog.JpEg''\<rparr>])
     = [\<lparr>parent = py ''memes'', name = py ''cat.PNG''\<rparr>,
        \<lparr>parent = py ''memes'', name = py ''dog.JpEg''\<rparr>]"
    by (simp add: get_image_files_def v1 v2 v3 v4 v5)
  have s: "skip_existing (ImageRenamer_init (py ''memes'') None None)"
    by (rule is_valid_image_file_iff
          [OF h, where file_path = "\<lparr>parent = py ''memes'', name = py ''cat.PNG''\<rparr>"
             and self = "ImageRenamer_init (py ''memes'') None None"
             and is_file = "\<lambda>p. name p \<noteq> py ''dir.png''" and iterdir = "[]"
             and dir = "py ''memes''" and verb = None, THEN conjunct2])
  show ?thesis by (intro conjI h s v)
qed


text \<open>
  C5, with the extension in lower case. For every file that discovery returns, \<^verbatim>\<open>process_image\<close> on a
  finite registry either renames nothing or renames that file once, to a name in the
  same parent directory whose extension is the lower-case form of the file's extension
  (a file \<^verbatim>\<open>scan.PNG\<close> gets a name ending in \<^verbatim>\<open>.png\<close>).
\<close>

theorem process_image_same_directory:
  assumes "no_ascii_capital lower_tbl"
    and "image_file \<in> set (get_image_files lower_tbl self is_file iterdir)"
    and "finite (registry w)"
  shows "\<exists>new_name.
      py_suffix new_name = py_lower lower_tbl (py_suffix (name (path image_file)))
    \<and> (process_image alnum ocr os_rename image_file w = Some (Inr (), w)
       \<or> process_image alnum ocr os_rename image_file w =
           Some (Inr (),
             w\<lparr>registry := insert new_name (registry w),
               renamed := renamed w
                 @ [(path image_file,
                     \<lparr>parent = parent (path image_file), name = new_name\<rparr>)]\<rparr>))"
proof -
  from discovered_file [OF assms(1,2)]
  have ext: "extension image_file = py_lower lower_tbl (py_suffix (name (path image_file)))"
    and four: "extension image_file \<in> {py ''.jpg'', py ''.jpeg'', py ''.png'', py ''.gif''}"
    by blast+
  obtain extracted where ex: "extract_text_from_image ocr (path image_file) = Inr extracted"
    using extract_text_from_image_Inr by blast
  obtain k where
    k: "generate_unique_filename (base_name_for alnum extracted image_file (registry w))
          (extension image_file) (registry w)
        = Some (name_at (base_name_for alnum extracted image_file (registry w))
                 (extension image_file) k)"
    using generate_unique_filename_result [OF assms(3)] by blast
  let ?n = "name_at (base_name_for alnum extracted image_file (registry w))
                 (extension image_file) k"
  have suf: "py_suffix ?n = py_lower lower_tbl (py_suffix (name (path image_file)))"
    using py_suffix_name_at [OF four] ext by simp
  have res: "process_image alnum ocr os_rename image_file w = Some (Inr (), w)
       \<or> process_image alnum ocr os_rename image_file w =
           Some (Inr (),
             w\<lparr>registry := insert ?n (registry w),
               renamed := renamed w
                 @ [(path image_file,
                     \<lparr>parent = parent (path image_file), name = ?n\<rparr>)]\<rparr>)"
    unfolding process_image_result [OF ex k] joinpath_def
    by (cases "os_rename (path image_file) \<lparr>parent = parent (path image_file), name = ?n\<rparr>") simp_all
  show ?thesis
    by (rule exI [of _ ?n]) (rule conjI [OF suf res])
qed

theorem process_image_same_directory_witness:
  "no_ascii_capital (\<lambda>s i. [s ! i])
   \<and> \<lparr>path = \<lparr>parent = py ''memes'', name = py ''scan.PNG''\<rparr>,
       original_name = py ''scan'', extension = py ''.png''\<rparr>
      \<in> set (get_image_files (\<lambda>s i. [s ! i]) (ImageRenamer_init (py ''memes'') None None)
               (\<lambda>p. True) [\<lparr>parent = py ''memes'', name = py ''scan.PNG''\<rparr>])
   \<and> finite (registry \<lparr>registry = {py ''photo.png'', py ''scan.PNG''}, renamed = []\<rparr>)
   \<and> (\<exists>new_name.
        py_suffix new_name = py_lower (\<lambda>s i. [s ! i])
          (py_suffix (name (path \<lparr>path = \<lparr>parent = py ''memes'', name = py ''scan.PNG''\<rparr>,
             original_name = py ''scan'', extension = py ''.png''\<rparr>)))
      \<and> (process_image (\<lambda>c. False) (\<lambda>p. Inr []) (\<lambda>src dst. None)
            \<lparr>path = \<lparr>parent = py ''memes'', name = py ''scan.PNG''\<rparr>,
             original_name = py ''scan'', extension = py ''.png''\<rparr>
            \<lparr>registry = {py ''photo.png'', py ''scan.PNG''}, renamed = []\<rparr>
          = Some (Inr (), \<lparr>registry = {py ''photo.png'', py ''scan.PNG''}, renamed = []\<rparr>)
         \<or> process_image (\<lambda>c. False) (\<lambda>p. Inr []) (\<lambda>src dst. None)
            \<lparr>path = \<lparr>parent = py ''memes'', name = py ''scan.PNG''\<rparr>,
             original_name = py ''scan'', extension = py ''.png''\<rparr>
            \<lparr>registry = {py ''photo.png'', py ''scan.PNG''}, renamed = []\<rparr>
          = Some (Inr (),
              \<lparr>registry = {py ''photo.png'', py ''scan.PNG''}, renamed = []\<rparr>
                \<lparr>registry := insert new_name
                   (registry \<lparr>registry = {py ''photo.png'', py ''scan.PNG''}, renamed = []\<rparr>),
                 renamed := renamed \<lparr>registry = {py ''photo.png'', py ''scan.PNG''}, renamed = []\<rparr>
                   @ [(path \<lparr>path = \<lparr>parent = py ''memes'', name = py ''scan.PNG''\<rparr>,
                         original_name = py ''scan'', extension = py ''.png''\<rparr>,
                       \<lparr>parent = parent (path \<lparr>path = \<lparr>parent = py ''memes'', name = py ''scan.PNG''\<rparr>,
                         original_name = py ''scan'', extension = py ''.png''\<rparr>),
                        name = new_name\<rparr>)]\<rparr>)))"
proof -
  have h1: "no_ascii_capital (\<lambda>s i. [s ! i])"
    by (auto simp add: no_ascii_capital_def)
  have h2: "\<lparr>path = \<lparr>parent = py ''memes'', name = py ''scan.PNG''\<rparr>,
       original_name = py ''scan'', extension = py ''.png''\<rparr>
      \<in> set (get_image_files (\<lambda>s i. [s ! i]) (ImageRenamer_init (py ''memes'') None None)
               (\<lambda>p. True) [\<lparr>parent = py ''memes'', name = py ''scan.PNG''\<rparr>])"
    unfolding scan_discovered by simp
  have h3: "finite (registry \<lparr>registry = {py ''photo.png'', py ''scan.PNG''}, renamed = []\<rparr>)"
    by simp
  show ?thesis
    by (intro conjI h1 h2 h3
        process_image_same_directory [OF h1 h2 h3, where alnum = "\<lambda>c. False"
          and ocr = "\<lambda>p. Inr []" and os_rename = "\<lambda>src dst. None"])
qed


text \<open>
  The extension is not kept as it was written: \<^verbatim>\<open>scan.PNG\<close>, with no text found and
  two names in the registry, is renamed to \<^verbatim>\<open>_meme_2.png\<close>.
\<close>

theorem process_image_extension_counterexample:
  "get_image_files (\<lambda>s i. [s ! i]) (ImageRenamer_init (py ''memes'') None None) (\<lambda>p. True)
      [\<lparr>parent = py ''memes'', name = py ''scan.PNG''\<rparr>]
   = [\<lparr>path = \<lparr>parent = py ''memes'', name = py ''scan.PNG''\<rparr>,
       original_name = py ''scan'', extension = py ''.png''\<rparr>]
   \<and> process_image (\<lambda>c. False) (\<lambda>p. Inr []) (\<lambda>src dst. None)
      \<lparr>path = \<lparr>parent = py ''memes'', name = py ''scan.PNG''\<rparr>,
       original_name = py ''scan'', extension = py ''.png''\<rparr>
      \<lparr>registry = {py ''photo.png'', py ''scan.PNG''}, renamed = []\<rparr>
   = Some (Inr (),
       \<lparr>registry = {py ''_meme_2.png'', py ''photo.png'', py ''scan.PNG''},
        renamed = [(\<lparr>parent = py ''memes'', name = py ''scan.PNG''\<rparr>,
                    \<lparr>parent = py ''memes'', name = py ''_meme_2.png''\<rparr>)]\<rparr>)
   \<and> py_suffix (py ''scan.PNG'') = py ''.PNG''
   \<and> py_suffix (py ''_meme_2.png'') = py ''.png''
   \<and> py ''.png'' \<noteq> py ''.PNG''"
proof (intro conjI)
  show "py_suffix (py ''scan.PNG'') = py ''.PNG''"
    by (simp add: py_suffix_def py_rfind_def py_def py_len_def)
  show "py_suffix (py ''_meme_2.png'') = py ''.png''"
    by (simp add: py_suffix_def py_rfind_def py_def py_len_def)
  show "py ''.png'' \<noteq> py ''.PNG''" by (simp add: py_def)
qed (rule scan_discovered, rule scan_processed)

text \<open>
  C2. \<^verbatim>\<open>main\<close> builds the renamer with \<^verbatim>\<open>skip_existing\<close> set exactly when
  \<^verbatim>\<open>--process-all\<close> was given. So the command line without the option leaves
  \<^verbatim>\<open>skip_existing\<close> unset and discovery returns a regular file
  \<^verbatim>\<open>_already_tagged.jpg\<close>; with \<^verbatim>\<open>--process-all\<close> the flag is set and the file is
  left out. This is the reverse of what the help text of the option says.
\<close>

theorem main_process_all_inverted:
  "skip_existing (main_renamer cl) = given_process_all cl
   \<and> main_discovers (\<lambda>s i. [s ! i]) (\<lambda>p. True)
      [\<lparr>parent = py ''memes'', name = py ''_already_tagged.jpg''\<rparr>]
      \<lparr>given_directory = py ''memes'', given_process_all = False, given_verbose = False\<rparr>
   = [\<lparr>path = \<lparr>parent = py ''memes'', name = py ''_already_tagged.jpg''\<rparr>,
       original_name = py ''_already_tagged'', extension = py ''.jpg''\<rparr>]
   \<and> main_discovers (\<lambda>s i. [s ! i]) (\<lambda>p. True)
      [\<lparr>parent = py ''memes'', name = py ''_already_tagged.jpg''\<rparr>]
      \<lparr>given_directory = py ''memes'', given_process_all = True, given_verbose = False\<rparr>
   = []"
proof -
  have g: "skip_existing (main_renamer cl) = given_process_all cl"
    by (simp add: main_renamer_def args_skip_existing_def store_true_def ImageRenamer_init_def)
  have r1: "main_renamer
        \<lparr>given_directory = py ''memes'', given_process_all = False, given_verbose = False\<rparr>
      = \<lparr>directory = py ''memes'', skip_existing = False, verbose = False\<rparr>"
    by (simp add: main_renamer_def args_skip_existing_def args_verbose_def store_true_def
        ImageRenamer_init_def)
  have r2: "main_renamer
        \<lparr>given_directory = py ''memes'', given_process_all = True, given_verbose = False\<rparr>
      = \<lparr>directory = py ''memes'', skip_existing = True, verbose = False\<rparr>"
    by (simp add: main_renamer_def args_skip_existing_def args_verbose_def store_true_def
        ImageRenamer_init_def)
  have d1: "main_discovers (\<lambda>s i. [s ! i]) (\<lambda>p. True)
      [\<lparr>parent = py ''memes'', name = py ''_already_tagged.jpg''\<rparr>]
      \<lparr>given_directory = py ''memes'', given_process_all = False, given_verbose = False\<rparr>
   = [\<lparr>path = \<lparr>parent = py ''memes'', name = py ''_already_tagged.jpg''\<rparr>,
       original_name = py ''_already_tagged'', extension = py ''.jpg''\<rparr>]"
    unfolding main_discovers_def r1
    by (simp add: get_image_files_def is_valid_image_file_def py_lower_def py_suffix_def
        py_stem_def py_rfind_def startswith_def VALID_EXTENSIONS_def py_def py_len_def)
  have d2: "main_discovers (\<lambda>s i. [s ! i]) (\<lambda>p. True)
      [\<lparr>parent = py ''memes'', name = py ''_already_tagged.jpg''\<rparr>]
      \<lparr>given_directory = py ''memes'', given_process_all = True, given_verbose = False\<rparr>
   = []"
    unfolding main_discovers_def r2
    by (simp add: get_image_files_def is_valid_image_file_def py_lower_def py_suffix_def
        py_stem_def py_rfind_def startswith_def VALID_EXTENSIONS_def py_def py_len_def)
  show ?thesis by (intro conjI g d1 d2)
qed

end
